theory Spec2Isabelle
  imports Main "HOL-Library.Word"
begin

unbundle bit_operations_syntax

section \<open>Comparison-operand capture (frida_mode/src/cmplog/cmplog_x64.c)\<close>

subsection \<open>Operand descriptors and the state the callouts read\<close>

text \<open>
  Registers, operand kinds and instruction identifiers are enumerations of the
  disassembler. Only the members the file names are constructors of their own; every
  other member is \<open>_OTHER n\<close>.
\<close>

datatype x86_reg =
  X86_REG_INVALID | X86_REG_RIP | X86_REG_RDI | X86_REG_RSI | X86_REG_OTHER nat

datatype x86_op_type =
  X86_OP_INVALID | X86_OP_REG | X86_OP_IMM | X86_OP_MEM | X86_OP_OTHER nat

text \<open>\<open>x86_op_mem\<close>: \<open>scale\<close> is a C \<open>int\<close>, \<open>disp\<close> an \<open>int64_t\<close>.\<close>

record x86_op_mem =
  segment :: x86_reg
  base :: x86_reg
  index :: x86_reg
  scale :: "32 word"
  disp :: "64 word"

text \<open>
  \<open>cmplog_ctx_t\<close>: the kind, the width in bytes (\<open>uint8_t\<close>) and a union of the three
  payloads. The union is three fields here; the code reads only the one that the kind
  selects.
\<close>

record cmplog_ctx_t =
  ctx_type :: x86_op_type
  ctx_size :: "8 word"
  ctx_mem :: x86_op_mem
  ctx_reg :: x86_reg
  ctx_imm :: "64 word"

record cmplog_pair_ctx_t =
  operand1 :: cmplog_ctx_t
  operand2 :: cmplog_ctx_t

text \<open>
  Modelled from the spec: \<open>ctx_read_reg\<close> (ctx.h) is not among the sources. The CPU
  context is the function that gives each register its 64-bit value, and reading a
  register applies it.
\<close>

type_synonym GumCpuContext = "x86_reg \<Rightarrow> 64 word"

definition ctx_read_reg :: "GumCpuContext \<Rightarrow> x86_reg \<Rightarrow> 64 word" where
  "ctx_read_reg context r = context r"

text \<open>
  Modelled from the spec: the Memory Probe \<open>cmplog_is_readable\<close> (frida_cmplog.h) is not
  among the sources. The target's memory is a parameter of every function that touches
  it: the probe's answer for an address and a size, and the byte stored at each address.
\<close>

record memory =
  cmplog_is_readable :: "64 word \<Rightarrow> nat \<Rightarrow> bool"
  byte_at :: "64 word \<Rightarrow> 8 word"

text \<open>A \<open>size\<close>-byte little-endian load (the file is compiled for x86-64 only),
  zero-extended to \<open>gsize\<close>.\<close>

fun load_le :: "(64 word \<Rightarrow> 8 word) \<Rightarrow> 64 word \<Rightarrow> nat \<Rightarrow> 64 word" where
  "load_le bytes a 0 = 0"
| "load_le bytes a (Suc n) = ucast (bytes a) OR push_bit 8 (load_le bytes (a + 1) n)"

text \<open>\<open>FFATAL\<close> ends the process; it is the \<open>Inl\<close> of every result below.\<close>

datatype fatal =
  Invalid_operand_size "8 word"
| Invalid_operand_type x86_op_type
| Null_cmp_map

subsection \<open>The operand evaluator\<close>

text \<open>
  \<open>cmplog_read_mem\<close> and \<open>cmplog_get_operand_value\<close> return \<open>gboolean\<close> and write
  \<open>*val\<close> on success: \<open>Inr (Some v)\<close> is TRUE with \<open>*val = v\<close>, \<open>Inr None\<close> is FALSE.
  The address is computed in \<open>gsize\<close>: \<open>scale\<close> is sign-extended, every operation wraps
  modulo \<open>2^64\<close>.
\<close>

definition mem_address :: "GumCpuContext \<Rightarrow> x86_op_mem \<Rightarrow> 64 word" where
  "mem_address ctx mem =
     (let base_v = (if base mem \<noteq> X86_REG_INVALID then ctx_read_reg ctx (base mem) else 0);
          index_v = (if index mem \<noteq> X86_REG_INVALID then ctx_read_reg ctx (index mem) else 0)
      in base_v + (index_v * scast (scale mem)) + disp mem)"

definition cmplog_read_mem ::
  "memory \<Rightarrow> GumCpuContext \<Rightarrow> 8 word \<Rightarrow> x86_op_mem \<Rightarrow> fatal + 64 word option" where
  "cmplog_read_mem M ctx sz mem =
     (let address = mem_address ctx mem
      in if \<not> cmplog_is_readable M address (unat sz) then Inr None
         else if sz = 1 then Inr (Some (load_le (byte_at M) address 1))
         else if sz = 2 then Inr (Some (load_le (byte_at M) address 2))
         else if sz = 4 then Inr (Some (load_le (byte_at M) address 4))
         else if sz = 8 then Inr (Some (load_le (byte_at M) address 8))
         else Inl (Invalid_operand_size sz))"

definition cmplog_get_operand_value ::
  "memory \<Rightarrow> GumCpuContext \<Rightarrow> cmplog_ctx_t \<Rightarrow> fatal + 64 word option" where
  "cmplog_get_operand_value M context ctx =
     (case ctx_type ctx of
        X86_OP_REG \<Rightarrow> Inr (Some (ctx_read_reg context (ctx_reg ctx)))
      | X86_OP_IMM \<Rightarrow> Inr (Some (ctx_imm ctx))
      | X86_OP_MEM \<Rightarrow> cmplog_read_mem M context (ctx_size ctx) (ctx_mem ctx)
      | _ \<Rightarrow> Inl (Invalid_operand_type (ctx_type ctx)))"

subsection \<open>The Comparison Map\<close>

text \<open>
  Modelled from the spec: cmplog.h, which declares the map, is not among the sources.
  The spec's data model gives an entry a header \<open>{type, shape, hits}\<close> with
  \<open>type\<close> one of INS, RTN, NONE, and a ring of operand pairs. The widths of the
  header's \<open>hits\<close> and \<open>shape\<close> fields are left open as the type parameters
  \<open>'hits\<close> and \<open>'shape\<close>, used at \<open>'h word\<close> and \<open>'s word\<close> for any widths: a
  store to a field keeps the low bits that fit.
\<close>

datatype cmp_type = CMP_TYPE_NONE | CMP_TYPE_INS | CMP_TYPE_RTN

record ('hits, 'shape) cmp_header =
  hits :: 'hits
  shape :: 'shape
  type :: cmp_type

text \<open>
  \<open>log[k]\<close> is one array in memory. The comparison callout writes it as
  \<open>struct cmp_operands[]\<close>; the call-site callout writes the same array through a cast
  to \<open>struct cmpfn_operands *\<close>. Both write the same bytes, so \<open>log[k]\<close> is the bytes of the
  array by their offset, and a record of either kind is the bytes of its fields. Each
  key has an array of its own (the spec: per location, a ring buffer), which holds the
  records of either ring.
\<close>

type_synonym ring_bytes = "nat \<Rightarrow> 8 word"

record ('hits, 'shape) cmp_map =
  headers :: "64 word \<Rightarrow> ('hits, 'shape) cmp_header"
  log :: "64 word \<Rightarrow> ring_bytes"

text \<open>A store of consecutive bytes at an offset, and the bytes found there.\<close>

definition store_bytes :: "ring_bytes \<Rightarrow> nat \<Rightarrow> 8 word list \<Rightarrow> ring_bytes" where
  "store_bytes ring off bs =
     (\<lambda>a. if off \<le> a \<and> a < off + length bs then bs ! (a - off) else ring a)"

definition load_bytes :: "ring_bytes \<Rightarrow> nat \<Rightarrow> nat \<Rightarrow> 8 word list" where
  "load_bytes ring off n = map (\<lambda>j. ring (off + j)) [0..<n]"

text \<open>A \<open>gsize\<close> in memory on x86-64: eight bytes, the least significant first.\<close>

definition le_bytes :: "64 word \<Rightarrow> 8 word list" where
  "le_bytes w = map (\<lambda>j. ucast (drop_bit (8 * j) w)) [0..<8]"

fun le_word :: "8 word list \<Rightarrow> 64 word" where
  "le_word [] = 0"
| "le_word (b # bs) = ucast b OR push_bit 8 (le_word bs)"

text \<open>
  What the callouts take from other files: the ring capacities \<open>CMP_MAP_H\<close> and
  \<open>CMP_MAP_RTN_H\<close> (cmplog.h; C \<open>int\<close> constants, used in \<open>u32\<close> arithmetic), the hash
  \<open>instrument_get_offset_hash\<close> (instrument.h) that turns an address into a key, and
  the layout of the two record types (cmplog.h): the size of each struct and the offset
  of each field the code writes.
\<close>

record externs =
  CMP_MAP_H :: "32 word"
  CMP_MAP_RTN_H :: "32 word"
  instrument_get_offset_hash :: "64 word \<Rightarrow> 64 word"
  sizeof_cmp_operands :: nat
  offsetof_v0 :: nat
  offsetof_v1 :: nat
  sizeof_cmpfn_operands :: nat
  offsetof_fn_v0 :: nat
  offsetof_fn_v0_len :: nat
  offsetof_fn_v1 :: nat
  offsetof_fn_v1_len :: nat

text \<open>
  Modelled from the spec: the field types of the two structs are declared in cmplog.h.
  An INS record holds two unsigned integers of up to 8 bytes each, so \<open>v0\<close> and \<open>v1\<close> of
  \<open>struct cmp_operands\<close> are eight-byte fields, which the \<open>gsize\<close> stores of the code
  fill; an RTN record holds two 31-byte buffers with explicit length fields, so of
  \<open>struct cmpfn_operands\<close> the code writes 31 bytes of \<open>v0\<close> and of \<open>v1\<close> and two one-byte
  lengths. \<open>apart\<close> says that two byte ranges do not overlap; the two layout predicates
  say what C guarantees of any struct: each field lies inside the struct, and the
  fields of one struct do not overlap.
\<close>

definition apart :: "nat \<Rightarrow> nat \<Rightarrow> nat \<Rightarrow> nat \<Rightarrow> bool" where
  "apart a n b k = (a + n \<le> b \<or> b + k \<le> a)"

definition cmp_operands_layout :: "externs \<Rightarrow> bool" where
  "cmp_operands_layout E =
     (offsetof_v0 E + 8 \<le> sizeof_cmp_operands E \<and>
      offsetof_v1 E + 8 \<le> sizeof_cmp_operands E \<and>
      apart (offsetof_v0 E) 8 (offsetof_v1 E) 8)"

definition cmpfn_operands_layout :: "externs \<Rightarrow> bool" where
  "cmpfn_operands_layout E =
     (offsetof_fn_v0 E + 31 \<le> sizeof_cmpfn_operands E \<and>
      offsetof_fn_v0_len E + 1 \<le> sizeof_cmpfn_operands E \<and>
      offsetof_fn_v1 E + 31 \<le> sizeof_cmpfn_operands E \<and>
      offsetof_fn_v1_len E + 1 \<le> sizeof_cmpfn_operands E \<and>
      apart (offsetof_fn_v0 E) 31 (offsetof_fn_v0_len E) 1 \<and>
      apart (offsetof_fn_v0 E) 31 (offsetof_fn_v1 E) 31 \<and>
      apart (offsetof_fn_v0 E) 31 (offsetof_fn_v1_len E) 1 \<and>
      apart (offsetof_fn_v0_len E) 1 (offsetof_fn_v1 E) 31 \<and>
      apart (offsetof_fn_v0_len E) 1 (offsetof_fn_v1_len E) 1 \<and>
      apart (offsetof_fn_v1 E) 31 (offsetof_fn_v1_len E) 1)"

text \<open>
  The two views of \<open>log[k]\<close>. \<open>cmp_operands_at\<close> is \<open>(log[k][i].v0, log[k][i].v1)\<close>;
  \<open>cmpfn_operands_at\<close> is the record \<open>i\<close> of the array seen as \<open>struct cmpfn_operands[]\<close>:
  the first 31 bytes of \<open>v0\<close>, \<open>v0_len\<close>, the first 31 bytes of \<open>v1\<close>, \<open>v1_len\<close>.
\<close>

definition cmp_operands_at :: "externs \<Rightarrow> ring_bytes \<Rightarrow> nat \<Rightarrow> 64 word \<times> 64 word" where
  "cmp_operands_at E ring i =
     (le_word (load_bytes ring (i * sizeof_cmp_operands E + offsetof_v0 E) 8),
      le_word (load_bytes ring (i * sizeof_cmp_operands E + offsetof_v1 E) 8))"

definition cmpfn_operands_at ::
  "externs \<Rightarrow> ring_bytes \<Rightarrow> nat \<Rightarrow> 8 word list \<times> 8 word \<times> 8 word list \<times> 8 word" where
  "cmpfn_operands_at E ring i =
     (load_bytes ring (i * sizeof_cmpfn_operands E + offsetof_fn_v0 E) 31,
      ring (i * sizeof_cmpfn_operands E + offsetof_fn_v0_len E),
      load_bytes ring (i * sizeof_cmpfn_operands E + offsetof_fn_v1 E) 31,
      ring (i * sizeof_cmpfn_operands E + offsetof_fn_v1_len E))"

text \<open>\<open>G_MAXULONG\<close> (glib) on the LP64 targets of this file: \<open>2^64 - 1\<close>.\<close>

definition G_MAXULONG :: "64 word" where
  "G_MAXULONG = - 1"

subsection \<open>Comparison/subtraction capture\<close>

text \<open>The two stores \<open>log[k][hits].v0 = operand1\<close> and \<open>log[k][hits].v1 = operand2\<close>.\<close>

definition write_cmp_operands ::
  "externs \<Rightarrow> ring_bytes \<Rightarrow> nat \<Rightarrow> 64 word \<Rightarrow> 64 word \<Rightarrow> ring_bytes" where
  "write_cmp_operands E ring i op1 op2 =
     (let base = i * sizeof_cmp_operands E;
          ring1 = store_bytes ring (base + offsetof_v0 E) (le_bytes op1)
      in store_bytes ring1 (base + offsetof_v1 E) (le_bytes op2))"

text \<open>
  \<open>cmplog_handle_cmp_sub\<close>, statement by statement. \<open>hits32\<close> is the local
  \<open>u32 hits\<close>; \<open>size - 1\<close> is computed in \<open>int\<close> and stored to the \<open>shape\<close> field.
\<close>

definition cmplog_handle_cmp_sub ::
  "externs \<Rightarrow> GumCpuContext \<Rightarrow> 64 word \<Rightarrow> 64 word \<Rightarrow> 8 word \<Rightarrow>
   ('h::len word, 's::len word) cmp_map \<Rightarrow> ('h word, 's word) cmp_map" where
  "cmplog_handle_cmp_sub E context op1 op2 sz m =
     (let address = ctx_read_reg context X86_REG_RIP;
          k = instrument_get_offset_hash E address;
          h0 = headers m k;
          h1 = (if type h0 \<noteq> CMP_TYPE_INS then h0\<lparr>hits := 0\<rparr> else h0);
          h2 = (if hits h1 = 0
                then h1\<lparr>type := CMP_TYPE_INS, shape := word_of_int (uint sz - 1)\<rparr>
                else h1);
          hits32 = (if hits h1 = 0 then 0 else ucast (hits h1) :: 32 word);
          h3 = h2\<lparr>hits := ucast (hits32 + 1)\<rparr>;
          i = unat (hits32 AND (CMP_MAP_H E - 1))
      in m\<lparr>headers := (headers m)(k := h3),
            log := (log m)(k := write_cmp_operands E (log m k) i op1 op2)\<rparr>)"

text \<open>
  \<open>cmplog_cmp_sub_callout\<close>: each operand that does not evaluate ends the callout
  before the map is touched; a fatal error in the evaluator ends the process.
\<close>

definition cmplog_cmp_sub_callout ::
  "externs \<Rightarrow> memory \<Rightarrow> GumCpuContext \<Rightarrow> cmplog_pair_ctx_t \<Rightarrow>
   ('h::len word, 's::len word) cmp_map \<Rightarrow> fatal + ('h word, 's word) cmp_map" where
  "cmplog_cmp_sub_callout E M context ctx m =
     (case cmplog_get_operand_value M context (operand1 ctx) of
        Inl e \<Rightarrow> Inl e
      | Inr None \<Rightarrow> Inr m
      | Inr (Some val1) \<Rightarrow>
          (case cmplog_get_operand_value M context (operand2 ctx) of
             Inl e \<Rightarrow> Inl e
           | Inr None \<Rightarrow> Inr m
           | Inr (Some val2) \<Rightarrow>
               Inr (cmplog_handle_cmp_sub E context val1 val2 (ctx_size (operand1 ctx)) m)))"

subsection \<open>Call-site capture\<close>

text \<open>\<open>gum_memcpy (dst, src, n)\<close> from the target's memory into \<open>log[k]\<close>: the \<open>n\<close>
  bytes at the address \<open>src\<close> are stored at the offset \<open>dst\<close>.\<close>

fun read_bytes :: "(64 word \<Rightarrow> 8 word) \<Rightarrow> 64 word \<Rightarrow> nat \<Rightarrow> 8 word list" where
  "read_bytes bytes a 0 = []"
| "read_bytes bytes a (Suc n) = bytes a # read_bytes bytes (a + 1) n"

definition gum_memcpy ::
  "ring_bytes \<Rightarrow> nat \<Rightarrow> (64 word \<Rightarrow> 8 word) \<Rightarrow> 64 word \<Rightarrow> nat \<Rightarrow> ring_bytes" where
  "gum_memcpy ring dst bytes src n = store_bytes ring dst (read_bytes bytes src n)"

text \<open>
  The four writes to record \<open>hits\<close> of \<open>(struct cmpfn_operands *) log[k]\<close>, in the order
  of the code: \<open>v0_len = 31\<close>, \<open>v1_len = 31\<close>, the copy to \<open>v0\<close>, the copy to \<open>v1\<close>.
\<close>

definition write_cmpfn_operands ::
  "externs \<Rightarrow> ring_bytes \<Rightarrow> nat \<Rightarrow> (64 word \<Rightarrow> 8 word) \<Rightarrow> 64 word \<Rightarrow> 64 word \<Rightarrow> ring_bytes" where
  "write_cmpfn_operands E ring i bytes ptr1 ptr2 =
     (let base = i * sizeof_cmpfn_operands E;
          ring1 = store_bytes ring (base + offsetof_fn_v0_len E) [31];
          ring2 = store_bytes ring1 (base + offsetof_fn_v1_len E) [31];
          ring3 = gum_memcpy ring2 (base + offsetof_fn_v0 E) bytes ptr1 31
      in gum_memcpy ring3 (base + offsetof_fn_v1 E) bytes ptr2 31)"

text \<open>
  What a callout does to the target's memory, in program order: a call of the probe
  \<open>cmplog_is_readable (address, size)\<close>, and a copy of \<open>size\<close> bytes from an address.
\<close>

datatype access = Probe "64 word" nat | Copy "64 word" nat

text \<open>
  \<open>cmplog_call_callout\<close>, statement by statement, with the accesses it has made when it
  returns. The \<open>||\<close> of the probe check evaluates its right operand only when the left
  one is false.
\<close>

definition cmplog_call_callout_traced ::
  "externs \<Rightarrow> memory \<Rightarrow> GumCpuContext \<Rightarrow> ('h::len word, 's::len word) cmp_map \<Rightarrow>
   access list \<times> ('h word, 's word) cmp_map" where
  "cmplog_call_callout_traced E M context m =
     (let address = ctx_read_reg context X86_REG_RIP;
          rdi = ctx_read_reg context X86_REG_RDI;
          rsi = ctx_read_reg context X86_REG_RSI
      in if G_MAXULONG - rdi < 31 \<or> G_MAXULONG - rsi < 31 then ([], m)
         else if \<not> cmplog_is_readable M rdi 31 then ([Probe rdi 31], m)
         else if \<not> cmplog_is_readable M rsi 31 then ([Probe rdi 31, Probe rsi 31], m)
         else
           let k = instrument_get_offset_hash E address;
               h0 = headers m k;
               h1 = (if type h0 \<noteq> CMP_TYPE_RTN
                     then h0\<lparr>type := CMP_TYPE_RTN, hits := 0\<rparr> else h0);
               h2 = (if hits h1 = 0 then h1\<lparr>shape := 30\<rparr> else h1);
               hits32 = (if hits h1 = 0 then 0 else ucast (hits h1) :: 32 word);
               h3 = h2\<lparr>hits := ucast (hits32 + 1)\<rparr>;
               i = unat (hits32 AND (CMP_MAP_RTN_H E - 1))
           in ([Probe rdi 31, Probe rsi 31, Copy rdi 31, Copy rsi 31],
               m\<lparr>headers := (headers m)(k := h3),
                 log := (log m)(k := write_cmpfn_operands E (log m k) i (byte_at M) rdi rsi)\<rparr>))"

text \<open>The map \<open>cmplog_call_callout\<close> leaves.\<close>

definition cmplog_call_callout ::
  "externs \<Rightarrow> memory \<Rightarrow> GumCpuContext \<Rightarrow> ('h::len word, 's::len word) cmp_map \<Rightarrow> ('h word, 's word) cmp_map" where
  "cmplog_call_callout E M context m = snd (cmplog_call_callout_traced E M context m)"

subsection \<open>The Instrumentation Selector\<close>

datatype x86_insn =
  X86_INS_CALL | X86_INS_CMP | X86_INS_SUB
| X86_INS_SCASB | X86_INS_SCASD | X86_INS_SCASQ | X86_INS_SCASW
| X86_INS_CMPSB | X86_INS_CMPSD | X86_INS_CMPSQ | X86_INS_CMPSS | X86_INS_CMPSW
| X86_INS_OTHER nat

text \<open>\<open>cs_x86_op\<close>, the disassembler's operand: kind, width and the same union.\<close>

record cs_x86_op =
  op_type :: x86_op_type
  op_size :: "8 word"
  op_reg :: x86_reg
  op_imm :: "64 word"
  op_mem :: x86_op_mem

text \<open>\<open>cs_insn\<close> with \<open>detail->x86\<close> flattened into it; \<open>operands\<close> is a fixed array.\<close>

record cs_insn =
  insn_id :: x86_insn
  op_count :: "8 word"
  operands :: "nat \<Rightarrow> cs_x86_op"

text \<open>
  What \<open>gum_stalker_iterator_put_callout\<close> is given: the callout and its user data.
  Each selector function returns the callouts it has put on the iterator.
\<close>

datatype callout = Call_callout | Cmp_sub_callout cmplog_pair_ctx_t

definition cmplog_instrument_put_operand ::
  "cmplog_ctx_t \<Rightarrow> cs_x86_op \<Rightarrow> fatal + cmplog_ctx_t" where
  "cmplog_instrument_put_operand ctx operand =
     (let c = ctx\<lparr>ctx_type := op_type operand, ctx_size := op_size operand\<rparr>
      in case op_type operand of
           X86_OP_REG \<Rightarrow> Inr (c\<lparr>ctx_reg := op_reg operand\<rparr>)
         | X86_OP_IMM \<Rightarrow> Inr (c\<lparr>ctx_imm := op_imm operand\<rparr>)
         | X86_OP_MEM \<Rightarrow> Inr (c\<lparr>ctx_mem := op_mem operand\<rparr>)
         | _ \<Rightarrow> Inl (Invalid_operand_type (op_type operand)))"

definition cmplog_instrument_call :: "cs_insn \<Rightarrow> callout list" where
  "cmplog_instrument_call instr =
     (if insn_id instr \<noteq> X86_INS_CALL then []
      else if op_count instr \<noteq> 1 then []
      else let operand = operands instr 0
           in if op_type operand = X86_OP_INVALID then []
              else if op_type operand = X86_OP_MEM \<and> segment (op_mem operand) \<noteq> X86_REG_INVALID
                   then []
              else [Call_callout])"

text \<open>
  \<open>g_malloc\<close> is the parameter \<open>alloc\<close>: \<open>None\<close> is the NULL the code checks for,
  \<open>Some c\<close> a fresh block whose bytes are \<open>c\<close>.
\<close>

definition cmplog_instrument_cmp_sub_put_callout ::
  "cmplog_pair_ctx_t option \<Rightarrow> cs_x86_op \<Rightarrow> cs_x86_op \<Rightarrow> fatal + callout list" where
  "cmplog_instrument_cmp_sub_put_callout alloc op1 op2 =
     (case alloc of
        None \<Rightarrow> Inr []
      | Some ctx \<Rightarrow>
          (case cmplog_instrument_put_operand (operand1 ctx) op1 of
             Inl e \<Rightarrow> Inl e
           | Inr c1 \<Rightarrow>
               (case cmplog_instrument_put_operand (operand2 ctx) op2 of
                  Inl e \<Rightarrow> Inl e
                | Inr c2 \<Rightarrow> Inr [Cmp_sub_callout (ctx\<lparr>operand1 := c1, operand2 := c2\<rparr>)])))"

text \<open>The \<open>switch\<close> of \<open>cmplog_instrument_cmp_sub\<close>: the identifiers that \<open>break\<close>.\<close>

fun cmp_sub_family :: "x86_insn \<Rightarrow> bool" where
  "cmp_sub_family X86_INS_CMP = True"
| "cmp_sub_family X86_INS_SUB = True"
| "cmp_sub_family X86_INS_SCASB = True"
| "cmp_sub_family X86_INS_SCASD = True"
| "cmp_sub_family X86_INS_SCASQ = True"
| "cmp_sub_family X86_INS_SCASW = True"
| "cmp_sub_family X86_INS_CMPSB = True"
| "cmp_sub_family X86_INS_CMPSD = True"
| "cmp_sub_family X86_INS_CMPSQ = True"
| "cmp_sub_family X86_INS_CMPSS = True"
| "cmp_sub_family X86_INS_CMPSW = True"
| "cmp_sub_family _ = False"

definition cmplog_instrument_cmp_sub ::
  "cmplog_pair_ctx_t option \<Rightarrow> cs_insn \<Rightarrow> fatal + callout list" where
  "cmplog_instrument_cmp_sub alloc instr =
     (if \<not> cmp_sub_family (insn_id instr) then Inr []
      else if op_count instr \<noteq> 2 then Inr []
      else let op1 = operands instr 0; op2 = operands instr 1
           in if op_type op1 = X86_OP_INVALID then Inr []
              else if op_type op2 = X86_OP_INVALID then Inr []
              else if op_size op1 = 1 then Inr []
              else cmplog_instrument_cmp_sub_put_callout alloc op1 op2)"

text \<open>\<open>cmplog_instrument\<close>; the global pointer \<open>__afl_cmp_map\<close> is its first argument,
  \<open>None\<close> when it is NULL.\<close>

definition cmplog_instrument ::
  "'m option \<Rightarrow> cmplog_pair_ctx_t option \<Rightarrow> cs_insn \<Rightarrow> fatal + callout list" where
  "cmplog_instrument afl_cmp_map alloc instr =
     (case afl_cmp_map of
        None \<Rightarrow> Inr []
      | Some _ \<Rightarrow>
          (case cmplog_instrument_cmp_sub alloc instr of
             Inl e \<Rightarrow> Inl e
           | Inr cs \<Rightarrow> Inr (cmplog_instrument_call instr @ cs)))"

subsection \<open>Running the instrumented target\<close>

text \<open>
  The host engine runs the callouts of an instruction, in the order they were put,
  each time the instruction executes, with the CPU context of that moment.
\<close>

fun run_callouts ::
  "externs \<Rightarrow> memory \<Rightarrow> GumCpuContext \<Rightarrow> callout list \<Rightarrow>
   ('h::len word, 's::len word) cmp_map \<Rightarrow> fatal + ('h word, 's word) cmp_map" where
  "run_callouts E M context [] m = Inr m"
| "run_callouts E M context (Call_callout # cs) m =
     run_callouts E M context cs (cmplog_call_callout E M context m)"
| "run_callouts E M context (Cmp_sub_callout ctx # cs) m =
     (case cmplog_cmp_sub_callout E M context ctx m of
        Inl e \<Rightarrow> Inl e
      | Inr m' \<Rightarrow> run_callouts E M context cs m')"

text \<open>
  One executed instruction: the memory and CPU context when it runs, the block
  \<open>g_malloc\<close> returned when it was instrumented, and the decoded instruction. A callout
  that ran with \<open>__afl_cmp_map\<close> NULL would dereference it: \<open>Null_cmp_map\<close>.
\<close>

type_synonym execution = "memory \<times> GumCpuContext \<times> cmplog_pair_ctx_t option \<times> cs_insn"

fun observe ::
  "externs \<Rightarrow> ('h::len word, 's::len word) cmp_map option \<Rightarrow> execution \<Rightarrow>
   fatal + ('h word, 's word) cmp_map option" where
  "observe E afl_cmp_map (M, context, alloc, instr) =
     (case cmplog_instrument afl_cmp_map alloc instr of
        Inl e \<Rightarrow> Inl e
      | Inr cs \<Rightarrow>
          (case afl_cmp_map of
             None \<Rightarrow> (case cs of [] \<Rightarrow> Inr None | _ \<Rightarrow> Inl Null_cmp_map)
           | Some m \<Rightarrow>
               (case run_callouts E M context cs m of
                  Inl e \<Rightarrow> Inl e
                | Inr m' \<Rightarrow> Inr (Some m'))))"

fun session ::
  "externs \<Rightarrow> ('h::len word, 's::len word) cmp_map option \<Rightarrow> execution list \<Rightarrow>
   fatal + ('h word, 's word) cmp_map option" where
  "session E afl_cmp_map [] = Inr afl_cmp_map"
| "session E afl_cmp_map (x # xs) =
     (case observe E afl_cmp_map x of
        Inl e \<Rightarrow> Inl e
      | Inr afl' \<Rightarrow> session E afl' xs)"

subsection \<open>Sequences of captures\<close>

text \<open>
  A comparison capture that reached \<open>cmplog_handle_cmp_sub\<close>: the CPU context and the
  three arguments. \<open>cmp_captures\<close> applies a sequence of them in order, \<open>cmp_key\<close> is
  the key a capture writes to.
\<close>

type_synonym cmp_event = "GumCpuContext \<times> 64 word \<times> 64 word \<times> 8 word"

fun cmp_captures ::
  "externs \<Rightarrow> cmp_event list \<Rightarrow> ('h::len word, 's::len word) cmp_map \<Rightarrow> ('h word, 's word) cmp_map" where
  "cmp_captures E [] m = m"
| "cmp_captures E ((cpu, a, b, sz) # es) m =
     cmp_captures E es (cmplog_handle_cmp_sub E cpu a b sz m)"

fun cmp_key :: "externs \<Rightarrow> cmp_event \<Rightarrow> 64 word" where
  "cmp_key E (cpu, a, b, sz) = instrument_get_offset_hash E (ctx_read_reg cpu X86_REG_RIP)"

fun cmp_pair :: "cmp_event \<Rightarrow> 64 word \<times> 64 word" where
  "cmp_pair (cpu, a, b, sz) = (a, b)"

text \<open>The same for the call-site callout: the memory and the CPU context of each run.\<close>

type_synonym call_event = "memory \<times> GumCpuContext"

fun call_captures ::
  "externs \<Rightarrow> call_event list \<Rightarrow> ('h::len word, 's::len word) cmp_map \<Rightarrow> ('h word, 's word) cmp_map" where
  "call_captures E [] m = m"
| "call_captures E ((M, cpu) # es) m = call_captures E es (cmplog_call_callout E M cpu m)"

fun call_key :: "externs \<Rightarrow> call_event \<Rightarrow> 64 word" where
  "call_key E (M, cpu) = instrument_get_offset_hash E (ctx_read_reg cpu X86_REG_RIP)"

text \<open>\<open>call_passes\<close>: the run gets past both early returns of \<open>cmplog_call_callout\<close>.
  \<open>call_pair\<close>: the two 31-byte snapshots it then takes.\<close>

fun call_passes :: "call_event \<Rightarrow> bool" where
  "call_passes (M, cpu) =
     (\<not> (G_MAXULONG - ctx_read_reg cpu X86_REG_RDI < 31 \<or>
         G_MAXULONG - ctx_read_reg cpu X86_REG_RSI < 31) \<and>
      \<not> (\<not> cmplog_is_readable M (ctx_read_reg cpu X86_REG_RDI) 31 \<or>
         \<not> cmplog_is_readable M (ctx_read_reg cpu X86_REG_RSI) 31))"

fun call_pair :: "call_event \<Rightarrow> 8 word list \<times> 8 word list" where
  "call_pair (M, cpu) =
     (read_bytes (byte_at M) (ctx_read_reg cpu X86_REG_RDI) 31,
      read_bytes (byte_at M) (ctx_read_reg cpu X86_REG_RSI) 31)"

section \<open>The data-flow trace table (custom_mutators/libfuzzer/FuzzerDataFlowTrace.h)\<close>

text \<open>
  \<open>BlockCoverage\<close> and \<open>DataFlowTrace\<close> with their private members. The unordered maps
  are partial functions, the unordered sets are sets.
\<close>

record BlockCoverage =
  Functions :: "nat \<rightharpoonup> 32 word list"
  FunctionsWithDFT :: "nat set"

record DataFlowTrace =
  Traces :: "string \<rightharpoonup> 8 word list"
  Coverage :: BlockCoverage
  CorporaHashes :: "string set"

text \<open>
  The private helpers of \<open>BlockCoverage\<close> that the header defines. Counters are
  \<open>uint32_t\<close>; a failed \<open>assert\<close> is \<open>Inl Assert_failed\<close>. The body of \<open>FunctionWeights\<close>
  is in another file.
\<close>

datatype assertion = Assert_failed

definition NumberOfCoveredBlocks :: "32 word list \<Rightarrow> 32 word" where
  "NumberOfCoveredBlocks Counters = fold (\<lambda>Cnt Res. if Cnt \<noteq> 0 then Res + 1 else Res) Counters 0"

definition NumberOfUncoveredBlocks :: "32 word list \<Rightarrow> 32 word" where
  "NumberOfUncoveredBlocks Counters = of_nat (length Counters) - NumberOfCoveredBlocks Counters"

definition SmallestNonZeroCounter :: "32 word list \<Rightarrow> assertion + 32 word" where
  "SmallestNonZeroCounter Counters =
     (if Counters = [] then Inl Assert_failed
      else let Res = fold (\<lambda>Cnt Res. if Cnt \<noteq> 0 then min Res Cnt else Res) Counters (Counters ! 0)
           in if Res = 0 then Inl Assert_failed else Inr Res)"

text \<open>\<open>Clear\<close> empties the table.\<close>

definition Clear :: "DataFlowTrace \<Rightarrow> DataFlowTrace" where
  "Clear D = D\<lparr>Traces := Map.empty\<rparr>"

text \<open>
  \<open>Get\<close> is a \<open>const\<close> member: it returns the pointer to the stored vector, or
  \<open>nullptr\<close> (\<open>None\<close>), together with the object as the call leaves it.
\<close>

definition Get :: "DataFlowTrace \<Rightarrow> string \<Rightarrow> 8 word list option \<times> DataFlowTrace" where
  "Get D InputSha1 =
     (case Traces D InputSha1 of
        Some v \<Rightarrow> (Some v, D)
      | None \<Rightarrow> (None, D))"

text \<open>A sequence of \<open>Get\<close> calls, each on the object the previous one left.\<close>

fun Get_calls :: "DataFlowTrace \<Rightarrow> string list \<Rightarrow> 8 word list option list \<times> DataFlowTrace" where
  "Get_calls D [] = ([], D)"
| "Get_calls D (s # ss) =
     (let (r, D1) = Get D s; (rs, D2) = Get_calls D1 ss in (r # rs, D2))"

section \<open>Example states\<close>

text \<open>
  Concrete values at which the theorems below are instantiated: capacities 32 and 8, a
  hash that keeps the low 16 bits, records of 32 and 64 bytes, a 24-bit \<open>hits\<close> and a 5-bit \<open>shape\<close> field, a CPU
  context with \<open>rip = 0x401000\<close>, \<open>rdi = 0x1000\<close>, \<open>rsi = 0x2000\<close>, a memory where
  nothing is readable and one where everything is.
\<close>

definition ex_externs :: externs where
  "ex_externs = \<lparr>CMP_MAP_H = 32, CMP_MAP_RTN_H = 8,
                  instrument_get_offset_hash = (\<lambda>a. a AND 65535),
                  sizeof_cmp_operands = 32, offsetof_v0 = 0, offsetof_v1 = 8,
                  sizeof_cmpfn_operands = 64, offsetof_fn_v0 = 0, offsetof_fn_v0_len = 31,
                  offsetof_fn_v1 = 32, offsetof_fn_v1_len = 63\<rparr>"

definition ex_context :: GumCpuContext where
  "ex_context = (\<lambda>r. case r of X86_REG_RIP \<Rightarrow> 4198400 | X86_REG_RDI \<Rightarrow> 4096
                         | X86_REG_RSI \<Rightarrow> 8192 | _ \<Rightarrow> 0)"

definition ex_unreadable :: memory where
  "ex_unreadable = \<lparr>cmplog_is_readable = (\<lambda>a n. False), byte_at = (\<lambda>a. 0)\<rparr>"

definition ex_readable :: memory where
  "ex_readable = \<lparr>cmplog_is_readable = (\<lambda>a n. True), byte_at = (\<lambda>a. ucast a)\<rparr>"

definition ex_header :: "(24 word, 5 word) cmp_header" where
  "ex_header = \<lparr>hits = 0, shape = 0, type = CMP_TYPE_NONE\<rparr>"

definition ex_map :: "(24 word, 5 word) cmp_map" where
  "ex_map = \<lparr>headers = (\<lambda>k. ex_header), log = (\<lambda>k a. 0)\<rparr>"

definition ex_mem :: x86_op_mem where
  "ex_mem = \<lparr>segment = X86_REG_INVALID, base = X86_REG_RDI, index = X86_REG_INVALID,
              scale = 1, disp = 8\<rparr>"

text \<open>Operand descriptors: the register \<open>rsi\<close>, and \<open>[rdi + 8]\<close> read at a given width.\<close>

definition ex_reg_operand :: cmplog_ctx_t where
  "ex_reg_operand = \<lparr>ctx_type = X86_OP_REG, ctx_size = 4, ctx_mem = ex_mem,
                      ctx_reg = X86_REG_RSI, ctx_imm = 0\<rparr>"

definition ex_mem_operand :: "8 word \<Rightarrow> cmplog_ctx_t" where
  "ex_mem_operand sz = \<lparr>ctx_type = X86_OP_MEM, ctx_size = sz, ctx_mem = ex_mem,
                         ctx_reg = X86_REG_INVALID, ctx_imm = 0\<rparr>"

text \<open>
  Entries whose \<open>hits\<close> field holds its top value, \<open>2^24 - 1\<close>, one typed INS and one
  typed RTN; an INS entry hit once by a four-byte comparison.
\<close>

definition ex_top_ins :: "(24 word, 5 word) cmp_map" where
  "ex_top_ins = ex_map\<lparr>headers := (\<lambda>k. \<lparr>hits = - 1, shape = 3, type = CMP_TYPE_INS\<rparr>)\<rparr>"

definition ex_top_rtn :: "(24 word, 5 word) cmp_map" where
  "ex_top_rtn = ex_map\<lparr>headers := (\<lambda>k. \<lparr>hits = - 1, shape = 30, type = CMP_TYPE_RTN\<rparr>)\<rparr>"

definition ex_hit_once :: "(24 word, 5 word) cmp_map" where
  "ex_hit_once = ex_map\<lparr>headers := (\<lambda>k. \<lparr>hits = 1, shape = 3, type = CMP_TYPE_INS\<rparr>)\<rparr>"

text \<open>Rings of capacity 2, to see a wraparound after three captures.\<close>

definition ex_small_externs :: externs where
  "ex_small_externs = ex_externs\<lparr>CMP_MAP_H := 2, CMP_MAP_RTN_H := 2\<rparr>"

definition ex_cmp_events :: "cmp_event list" where
  "ex_cmp_events = [(ex_context, 10, 11, 4), (ex_context, 20, 21, 4), (ex_context, 30, 31, 4)]"

definition ex_call_events :: "call_event list" where
  "ex_call_events = [(ex_readable, ex_context), (ex_readable, ex_context),
                     (ex_readable, ex_context)]"

text \<open>The instruction \<open>cmp al, bl\<close>: two register operands, one byte wide.\<close>

definition ex_byte_cmp :: cs_insn where
  "ex_byte_cmp = \<lparr>insn_id = X86_INS_CMP, op_count = 2,
                   operands = (\<lambda>i. \<lparr>op_type = X86_OP_REG, op_size = 1,
                                       op_reg = X86_REG_OTHER i, op_imm = 0, op_mem = ex_mem\<rparr>)\<rparr>"

definition ex_trace :: DataFlowTrace where
  "ex_trace = \<lparr>Traces = [''aaa1'' \<mapsto> [1, 0, 1]],
                Coverage = \<lparr>Functions = Map.empty, FunctionsWithDFT = {}\<rparr>,
                CorporaHashes = {''aaa1''}\<rparr>"

section \<open>Auxiliary facts\<close>

subsection \<open>Words and counters\<close>

lemma top_guard: "(G_MAXULONG - p < 31) = (2 ^ 64 \<le> unat p + 31)"
proof -
  have "unat (G_MAXULONG - p) = 2 ^ 64 - 1 - unat p"
    unfolding G_MAXULONG_def by (simp add: unat_sub unsigned_minus_1_eq_mask mask_eq_exp_minus_1)
  moreover have "unat p < 2 ^ 64" using unsigned_less[of p] by simp
  ultimately show ?thesis by (simp add: word_less_nat_alt) arith
qed

lemma unat_ucast_32:
  fixes x :: "'h::len word"
  assumes "LENGTH('h) \<le> 32"
  shows "unat (ucast x :: 32 word) = unat x"
proof -
  have "unat x < 2 ^ LENGTH('h)" by (rule unsigned_less)
  also have "(2::nat) ^ LENGTH('h) \<le> 2 ^ 32" using assms by (intro power_increasing) simp_all
  finally have "unat x < 2 ^ 32" .
  then show ?thesis by (simp add: unsigned_ucast_eq take_bit_nat_eq_self)
qed

lemma ucast_up_down:
  fixes x :: "'h::len word"
  assumes "LENGTH('h) \<le> 32"
  shows "(ucast ((ucast x :: 32 word) + 1) :: 'h word) = x + 1"
proof -
  have d: "(2::nat) ^ LENGTH('h) dvd 2 ^ 32" using assms by (rule le_imp_power_dvd)
  have a: "unat ((ucast x :: 32 word) + 1) = (unat x + 1) mod 2 ^ 32"
    by (simp add: unat_word_ariths unat_ucast_32[OF assms])
  have "unat (ucast ((ucast x :: 32 word) + 1) :: 'h word) = ((unat x + 1) mod 2 ^ 32) mod 2 ^ LENGTH('h)"
    by (simp only: unsigned_ucast_eq a take_bit_eq_mod)
  also have "\<dots> = (unat x + 1) mod 2 ^ LENGTH('h)"
    using d by (simp add: mod_mod_cancel)
  also have "\<dots> = unat (x + 1)" by (simp add: unat_word_ariths)
  finally show ?thesis by (simp add: word_unat_eq_iff)
qed

lemma unat_and_cap:
  fixes y :: "32 word"
  shows "unat (y AND (2 ^ n - 1)) = unat y mod 2 ^ n"
proof -
  have "y AND (2 ^ n - 1) = take_bit n y"
    by (simp add: take_bit_eq_mask mask_eq_exp_minus_1)
  then have "unat (y AND (2 ^ n - 1)) = take_bit n (unat y)"
    by (simp only: unsigned_take_bit_eq)
  then show ?thesis by (simp only: take_bit_eq_mod)
qed

lemma mod_distinct_window:
  fixes j N c :: nat
  assumes "j < N" and "N < j + c"
  shows "j mod c \<noteq> N mod c"
proof
  assume "j mod c = N mod c"
  then have "c dvd N - j" using assms(1) by (metis mod_eq_dvd_iff_nat less_imp_le)
  moreover have "0 < N - j" "N - j < c" using assms by simp_all
  ultimately show False using nat_dvd_not_less by blast
qed

lemma unat_of_nat_mod_cap:
  assumes "n \<le> LENGTH('h::len)"
  shows "unat (of_nat N :: 'h word) mod 2 ^ n = N mod 2 ^ n"
proof -
  have "(2::nat) ^ n dvd 2 ^ LENGTH('h)" using assms by (rule le_imp_power_dvd)
  then show ?thesis by (simp add: unat_of_nat mod_mod_cancel)
qed

lemma of_nat_neq_0:
  assumes "0 < N" and "N < 2 ^ LENGTH('h::len)"
  shows "(of_nat N :: 'h word) \<noteq> 0"
proof
  assume "(of_nat N :: 'h word) = 0"
  then have "unat (of_nat N :: 'h word) = 0" by simp
  then show False using assms by (simp add: unat_of_nat)
qed

lemma word_inc_less: "w \<noteq> - 1 \<Longrightarrow> w < w + 1" for w :: "'a::len word"
  using inc_less_eq_self_iff_eq[of w] by (simp add: not_le)


subsection \<open>Loads and copies from the target's memory\<close>

lemma read_bytes_map: "read_bytes bytes a n = map (\<lambda>j. bytes (a + of_nat j)) [0..<n]"
proof (induction n arbitrary: a)
  case 0 show ?case by simp
next
  case (Suc n)
  have "map (\<lambda>j. bytes (a + of_nat j)) [0..<Suc n] = bytes a # map (\<lambda>j. bytes (a + 1 + of_nat j)) [0..<n]"
    by (simp only: upt_conv_Cons[of 0 "Suc n"] map_Suc_upt[symmetric]) (simp add: ac_simps)
  then show ?case using Suc by simp
qed

lemma length_read_bytes: "length (read_bytes bytes a n) = n"
  by (induction n arbitrary: a) simp_all

lemma bit_load_le:
  "bit (load_le bytes a n) j \<longleftrightarrow> j < 64 \<and> j < 8 * n \<and> bit (bytes (a + of_nat (j div 8))) (j mod 8)"
proof (induction n arbitrary: a j)
  case 0 show ?case by simp
next
  case (Suc n)
  show ?case
  proof (cases "j < 8")
    case True
    then have "j div 8 = 0" "j mod 8 = j" by simp_all
    with True show ?thesis by (simp add: bit_or_iff bit_ucast_iff bit_push_bit_iff)
  next
    case False
    then have j: "8 \<le> j" by simp
    then obtain q where q: "j = 8 + q" using le_Suc_ex by blast
    have e: "j div 8 = Suc (q div 8)" "j mod 8 = q mod 8"
      by (simp_all add: q)
    have "\<not> bit (ucast (bytes a) :: 64 word) j"
      using j by (auto simp: bit_ucast_iff dest: bit_imp_le_length)
    moreover have "bit (push_bit 8 (load_le bytes (a + 1) n)) j \<longleftrightarrow> j < 64 \<and> bit (load_le bytes (a + 1) n) q"
      by (auto simp: bit_push_bit_iff q dest: bit_imp_le_length)
    ultimately have "bit (load_le bytes a (Suc n)) j \<longleftrightarrow> j < 64 \<and> bit (load_le bytes (a + 1) n) q"
      by (simp add: bit_or_iff)
    also have "\<dots> \<longleftrightarrow> j < 64 \<and> q < 8 * n \<and> bit (bytes (a + 1 + of_nat (q div 8))) (q mod 8)"
      using q by (auto simp: Suc)
    also have "\<dots> \<longleftrightarrow> j < 64 \<and> j < 8 * Suc n \<and> bit (bytes (a + of_nat (j div 8))) (j mod 8)"
    proof -
      have "a + 1 + of_nat (q div 8) = a + of_nat (j div 8)" by (simp add: e)
      moreover have "q < 8 * n \<longleftrightarrow> j < 8 * Suc n" by (simp add: q)
      ultimately show ?thesis by (simp only: e)
    qed
    finally show ?thesis .
  qed
qed

lemma load_le_2: "load_le bytes a 2 = ucast (bytes a) OR push_bit 8 (ucast (bytes (a + 1)))"
  by (simp add: numeral_2_eq_2)

subsection \<open>The bytes of a ring and its two views\<close>

lemma store_bytes_out:
  "a < off \<or> off + length bs \<le> a \<Longrightarrow> store_bytes ring off bs a = ring a"
  by (auto simp: store_bytes_def)

lemma load_store_same: "load_bytes (store_bytes ring off bs) off (length bs) = bs"
  by (rule nth_equalityI) (simp_all add: load_bytes_def store_bytes_def)

lemma load_store_apart:
  assumes "apart off' n off (length bs)"
  shows "load_bytes (store_bytes ring off bs) off' n = load_bytes ring off' n"
  using assms by (auto simp: load_bytes_def store_bytes_def apart_def)

lemma byte_store_apart:
  assumes "apart a 1 off (length bs)"
  shows "store_bytes ring off bs a = ring a"
  using assms by (auto simp: store_bytes_def apart_def)

lemma byte_store_same: "store_bytes ring off [b] off = b"
  by (simp add: store_bytes_def)

lemma slot_apart:
  assumes "o1 + n1 \<le> S" and "o2 + n2 \<le> S" and "i \<noteq> j"
  shows "apart (j * S + o2) n2 (i * S + o1) n1"
proof (cases "i < j")
  case True
  then have "Suc i * S \<le> j * S" by (intro mult_le_mono1) simp
  then have "i * S + o1 + n1 \<le> j * S + o2" using assms(1) by simp
  then show ?thesis by (simp add: apart_def)
next
  case False
  then have "j < i" using assms(3) by simp
  then have "Suc j * S \<le> i * S" by (intro mult_le_mono1) simp
  then have "j * S + o2 + n2 \<le> i * S + o1" using assms(2) by simp
  then show ?thesis by (simp add: apart_def)
qed

lemma field_apart: "apart a n b k \<Longrightarrow> apart (c + a) n (c + b) k"
  by (auto simp: apart_def)

lemma apart_sym: "apart a n b k \<Longrightarrow> apart b k a n"
  by (auto simp: apart_def)

lemma length_le_bytes: "length (le_bytes w) = 8"
  by (simp add: le_bytes_def)

lemma bit_le_word:
  "bit (le_word bs) j \<longleftrightarrow> j < 64 \<and> j div 8 < length bs \<and> bit (bs ! (j div 8)) (j mod 8)"
proof (induction bs arbitrary: j)
  case Nil
  show ?case by simp
next
  case (Cons b bs)
  show ?case
  proof (cases "j < 8")
    case True
    then have "j div 8 = 0" "j mod 8 = j" by simp_all
    with True show ?thesis by (simp add: bit_or_iff bit_ucast_iff bit_push_bit_iff)
  next
    case False
    then have j: "8 \<le> j" by simp
    then obtain q where q: "j = 8 + q" using le_Suc_ex by blast
    have e: "j div 8 = Suc (q div 8)" "j mod 8 = q mod 8"
      by (simp_all add: q)
    have "\<not> bit (ucast b :: 64 word) j"
      using j by (auto simp: bit_ucast_iff dest: bit_imp_le_length)
    moreover have "bit (push_bit 8 (le_word bs)) j \<longleftrightarrow> j < 64 \<and> bit (le_word bs) q"
      by (auto simp: bit_push_bit_iff q dest: bit_imp_le_length)
    ultimately have "bit (le_word (b # bs)) j \<longleftrightarrow> j < 64 \<and> bit (le_word bs) q"
      by (simp add: bit_or_iff)
    also have "\<dots> \<longleftrightarrow> j < 64 \<and> q div 8 < length bs \<and> bit (bs ! (q div 8)) (q mod 8)"
      using q by (auto simp: Cons)
    also have "\<dots> \<longleftrightarrow> j < 64 \<and> j div 8 < length (b # bs) \<and> bit ((b # bs) ! (j div 8)) (j mod 8)"
      by (simp only: e) simp
    finally show ?thesis .
  qed
qed

lemma le_word_le_bytes: "le_word (le_bytes w) = w"
proof (rule bit_word_eqI)
  fix j assume "j < LENGTH(64)"
  then have j: "j < 64" by simp
  then have d: "j div 8 < 8" by simp
  have "8 * (j div 8) + j mod 8 = j" by simp
  then have "bit (le_bytes w ! (j div 8)) (j mod 8) \<longleftrightarrow> bit w j"
    using d by (simp add: le_bytes_def bit_ucast_iff bit_drop_bit_eq)
  then show "bit (le_word (le_bytes w)) j \<longleftrightarrow> bit w j"
    using j d by (simp add: bit_le_word length_le_bytes)
qed

lemma cmp_operands_at_write_same:
  assumes "cmp_operands_layout E"
  shows "cmp_operands_at E (write_cmp_operands E ring i a b) i = (a, b)"
proof -
  define B where "B = i * sizeof_cmp_operands E"
  have ap: "apart (B + offsetof_v0 E) 8 (B + offsetof_v1 E) (length (le_bytes b))"
    using assms by (simp add: cmp_operands_layout_def field_apart length_le_bytes)
  have "load_bytes (store_bytes (store_bytes ring (B + offsetof_v0 E) (le_bytes a))
          (B + offsetof_v1 E) (le_bytes b)) (B + offsetof_v0 E) 8 = le_bytes a"
    using load_store_apart[OF ap] load_store_same[of ring "B + offsetof_v0 E" "le_bytes a"]
    by (simp add: length_le_bytes)
  moreover have "load_bytes (store_bytes (store_bytes ring (B + offsetof_v0 E) (le_bytes a))
          (B + offsetof_v1 E) (le_bytes b)) (B + offsetof_v1 E) 8 = le_bytes b"
    using load_store_same[of _ "B + offsetof_v1 E" "le_bytes b"] by (simp add: length_le_bytes)
  ultimately show ?thesis
    by (simp add: cmp_operands_at_def write_cmp_operands_def Let_def B_def le_word_le_bytes)
qed

lemma cmp_operands_at_write_other:
  assumes L: "cmp_operands_layout E" and ne: "j \<noteq> i"
  shows "cmp_operands_at E (write_cmp_operands E ring i a b) j = cmp_operands_at E ring j"
proof -
  define S where "S = sizeof_cmp_operands E"
  have in0: "offsetof_v0 E + 8 \<le> S" and in1: "offsetof_v1 E + 8 \<le> S"
    using L by (simp_all add: cmp_operands_layout_def S_def)
  have through: "load_bytes (store_bytes (store_bytes ring (i * S + offsetof_v0 E) (le_bytes a))
          (i * S + offsetof_v1 E) (le_bytes b)) (j * S + off) 8 = load_bytes ring (j * S + off) 8"
    if "off + 8 \<le> S" for off
  proof -
    have "apart (j * S + off) 8 (i * S + offsetof_v1 E) (length (le_bytes b))"
      using slot_apart[OF in1 that] ne by (simp add: length_le_bytes)
    moreover have "apart (j * S + off) 8 (i * S + offsetof_v0 E) (length (le_bytes a))"
      using slot_apart[OF in0 that] ne by (simp add: length_le_bytes)
    ultimately show ?thesis by (simp add: load_store_apart)
  qed
  show ?thesis
    using through[OF in0] through[OF in1]
    by (simp add: cmp_operands_at_def write_cmp_operands_def Let_def S_def)
qed


lemma cmpfn_operands_at_write_same:
  assumes L: "cmpfn_operands_layout E"
  shows "cmpfn_operands_at E (write_cmpfn_operands E ring i bytes p1 p2) i =
         (read_bytes bytes p1 31, 31, read_bytes bytes p2 31, 31)"
proof -
  define B where "B = i * sizeof_cmpfn_operands E"
  define r1 where "r1 = store_bytes ring (B + offsetof_fn_v0_len E) [31]"
  define r2 where "r2 = store_bytes r1 (B + offsetof_fn_v1_len E) [31]"
  define r3 where "r3 = store_bytes r2 (B + offsetof_fn_v0 E) (read_bytes bytes p1 31)"
  define r4 where "r4 = store_bytes r3 (B + offsetof_fn_v1 E) (read_bytes bytes p2 31)"
  have w: "write_cmpfn_operands E ring i bytes p1 p2 = r4"
    by (simp add: write_cmpfn_operands_def gum_memcpy_def Let_def B_def r1_def r2_def r3_def r4_def)
  have ap: "apart (B + offsetof_fn_v0 E) 31 (B + offsetof_fn_v0_len E) 1"
    "apart (B + offsetof_fn_v0 E) 31 (B + offsetof_fn_v1 E) 31"
    "apart (B + offsetof_fn_v0 E) 31 (B + offsetof_fn_v1_len E) 1"
    "apart (B + offsetof_fn_v0_len E) 1 (B + offsetof_fn_v1 E) 31"
    "apart (B + offsetof_fn_v0_len E) 1 (B + offsetof_fn_v1_len E) 1"
    "apart (B + offsetof_fn_v1 E) 31 (B + offsetof_fn_v1_len E) 1"
    using L by (simp_all add: cmpfn_operands_layout_def field_apart)
  have v0: "load_bytes r4 (B + offsetof_fn_v0 E) 31 = read_bytes bytes p1 31"
    using load_store_same[of r2 "B + offsetof_fn_v0 E" "read_bytes bytes p1 31"] ap(2)
    by (simp add: r4_def r3_def load_store_apart length_read_bytes)
  have v1: "load_bytes r4 (B + offsetof_fn_v1 E) 31 = read_bytes bytes p2 31"
    using load_store_same[of r3 "B + offsetof_fn_v1 E" "read_bytes bytes p2 31"]
    by (simp add: r4_def length_read_bytes)
  have l0: "r4 (B + offsetof_fn_v0_len E) = 31"
    using ap(1,4,5)
    by (simp add: r4_def r3_def r2_def r1_def byte_store_apart byte_store_same
        length_read_bytes apart_sym)
  have l1: "r4 (B + offsetof_fn_v1_len E) = 31"
    using ap(3,6)
    by (simp add: r4_def r3_def r2_def byte_store_apart byte_store_same
        length_read_bytes apart_sym)
  show ?thesis
    using v0 v1 l0 l1 by (simp add: cmpfn_operands_at_def w B_def)
qed

lemma write_cmpfn_operands_frame:
  assumes L: "cmpfn_operands_layout E"
    and out: "x < i * sizeof_cmpfn_operands E \<or> Suc i * sizeof_cmpfn_operands E \<le> x"
  shows "write_cmpfn_operands E ring i bytes p1 p2 x = ring x"
proof -
  define B where "B = i * sizeof_cmpfn_operands E"
  have "x < B + offsetof_fn_v0_len E \<or> B + offsetof_fn_v0_len E + length [31 :: 8 word] \<le> x"
    "x < B + offsetof_fn_v1_len E \<or> B + offsetof_fn_v1_len E + length [31 :: 8 word] \<le> x"
    "x < B + offsetof_fn_v0 E \<or> B + offsetof_fn_v0 E + length (read_bytes bytes p1 31) \<le> x"
    "x < B + offsetof_fn_v1 E \<or> B + offsetof_fn_v1 E + length (read_bytes bytes p2 31) \<le> x"
    using L out by (auto simp: cmpfn_operands_layout_def length_read_bytes B_def)
  then show ?thesis
    by (simp add: write_cmpfn_operands_def gum_memcpy_def Let_def store_bytes_out B_def)
qed

lemma cmpfn_operands_at_write_other:
  assumes L: "cmpfn_operands_layout E" and ne: "j \<noteq> i"
  shows "cmpfn_operands_at E (write_cmpfn_operands E ring i bytes p1 p2) j =
         cmpfn_operands_at E ring j"
proof -
  define S where "S = sizeof_cmpfn_operands E"
  have same: "write_cmpfn_operands E ring i bytes p1 p2 (j * S + x) = ring (j * S + x)"
    if "x < S" for x
  proof -
    have "j * S + x < i * S \<or> Suc i * S \<le> j * S + x"
    proof (cases "j < i")
      case True
      then have "Suc j * S \<le> i * S" by (intro mult_le_mono1) simp
      then show ?thesis using that by simp
    next
      case False
      then have "i < j" using ne by simp
      then have "Suc i * S \<le> j * S" by (intro mult_le_mono1) simp
      then show ?thesis by simp
    qed
    then show ?thesis
      using write_cmpfn_operands_frame[OF L] by (simp add: S_def)
  qed
  have inS: "offsetof_fn_v0 E + 31 \<le> S" "offsetof_fn_v0_len E < S"
    "offsetof_fn_v1 E + 31 \<le> S" "offsetof_fn_v1_len E < S"
    using L by (simp_all add: cmpfn_operands_layout_def S_def)
  have "load_bytes (write_cmpfn_operands E ring i bytes p1 p2) (j * S + offsetof_fn_v0 E) 31 =
        load_bytes ring (j * S + offsetof_fn_v0 E) 31"
    using inS(1) by (simp add: load_bytes_def add.assoc same)
  moreover have "load_bytes (write_cmpfn_operands E ring i bytes p1 p2) (j * S + offsetof_fn_v1 E) 31 =
        load_bytes ring (j * S + offsetof_fn_v1 E) 31"
    using inS(3) by (simp add: load_bytes_def add.assoc same)
  ultimately show ?thesis
    using same[OF inS(2)] same[OF inS(4)] by (simp add: cmpfn_operands_at_def S_def)
qed

text \<open>
  The two views share their bytes: with records of 32 and 64 bytes, a comparison capture
  at an untouched key changes the first byte of record 0 of the call-site view.
\<close>

lemma views_share_bytes:
  "fst (cmpfn_operands_at ex_externs (log ex_map 4096) 0) ! 0 = 0 \<and>
   fst (cmpfn_operands_at ex_externs
     (log (cmplog_handle_cmp_sub ex_externs ex_context 1 2 4 ex_map) 4096) 0) ! 0 = 1"
  by (simp add: cmplog_handle_cmp_sub_def Let_def cmpfn_operands_at_def load_bytes_def
      write_cmp_operands_def store_bytes_def le_bytes_def ex_map_def ex_header_def
      ex_externs_def ex_context_def ctx_read_reg_def)

subsection \<open>The selector, the session and the call-site callout\<close>

lemma session_null: "session E None xs = Inr None"
  by (induction xs) (auto simp: cmplog_instrument_def)

lemma cmp_sub_family_not_call: "cmp_sub_family i \<Longrightarrow> i \<noteq> X86_INS_CALL"
  by (cases i) auto

lemma cmplog_call_callout_unfold:
  "cmplog_call_callout E M cpu m =
     (let rdi = ctx_read_reg cpu X86_REG_RDI;
          rsi = ctx_read_reg cpu X86_REG_RSI
      in if G_MAXULONG - rdi < 31 \<or> G_MAXULONG - rsi < 31 then m
         else if \<not> cmplog_is_readable M rdi 31 \<or> \<not> cmplog_is_readable M rsi 31 then m
         else
           let k = instrument_get_offset_hash E (ctx_read_reg cpu X86_REG_RIP);
               h0 = headers m k;
               h1 = (if type h0 \<noteq> CMP_TYPE_RTN
                     then h0\<lparr>type := CMP_TYPE_RTN, hits := 0\<rparr> else h0);
               h2 = (if hits h1 = 0 then h1\<lparr>shape := 30\<rparr> else h1);
               hits32 = (if hits h1 = 0 then 0 else ucast (hits h1) :: 32 word);
               h3 = h2\<lparr>hits := ucast (hits32 + 1)\<rparr>;
               i = unat (hits32 AND (CMP_MAP_RTN_H E - 1))
           in m\<lparr>headers := (headers m)(k := h3),
                 log := (log m)(k := write_cmpfn_operands E (log m k) i (byte_at M) rdi rsi)\<rparr>)"
  by (simp add: cmplog_call_callout_def cmplog_call_callout_traced_def Let_def)

lemma call_callout_probes_first:
  assumes "\<not> (G_MAXULONG - ctx_read_reg cpu X86_REG_RDI < 31 \<or>
              G_MAXULONG - ctx_read_reg cpu X86_REG_RSI < 31)"
  shows "\<exists>rest. fst (cmplog_call_callout_traced E M cpu m) =
           Probe (ctx_read_reg cpu X86_REG_RDI) 31 # rest"
  using assms by (simp add: cmplog_call_callout_traced_def Let_def)

subsection \<open>Sequences of comparison captures\<close>

lemma cmp_sub_step:
  fixes m :: "('h::len word, 's::len word) cmp_map"
  assumes cap: "CMP_MAP_H E = 2 ^ n" and width: "LENGTH('h) \<le> 32"
    and k: "k = instrument_get_offset_hash E (ctx_read_reg cpu X86_REG_RIP)"
    and h: "h = headers m k"
    and r: "r = (if type h \<noteq> CMP_TYPE_INS then 0 else hits h)"
    and i: "i = unat r mod 2 ^ n"
  shows "cmplog_handle_cmp_sub E cpu a b sz m =
         m\<lparr>headers := (headers m)(k :=
              if r = 0 then h\<lparr>type := CMP_TYPE_INS, shape := word_of_int (uint sz - 1), hits := 1\<rparr>
              else h\<lparr>hits := r + 1\<rparr>),
           log := (log m)(k := write_cmp_operands E (log m k) i a b)\<rparr>"
proof -
  define hits32 :: "32 word" where "hits32 = (if r = 0 then 0 else ucast r)"
  have idx: "unat (hits32 AND (CMP_MAP_H E - 1)) = i"
    by (auto simp: hits32_def i cap unat_and_cap unat_ucast_32[OF width])
  have up: "(ucast (hits32 + 1) :: 'h word) = r + 1"
    by (auto simp: hits32_def ucast_up_down[OF width])
  show ?thesis
    using idx up
    unfolding cmplog_handle_cmp_sub_def
    by (auto simp: Let_def k[symmetric] h[symmetric] r hits32_def)
qed

lemma cmp_captures_append:
  "cmp_captures E (es @ fs) m = cmp_captures E fs (cmp_captures E es m)"
  by (induction es arbitrary: m) auto

lemma cmp_captures_header:
  fixes m :: "('h::len word, 's::len word) cmp_map"
  assumes cap: "CMP_MAP_H E = 2 ^ n" and width: "LENGTH('h) \<le> 32"
    and fresh: "type (headers m k) \<noteq> CMP_TYPE_INS \<or> hits (headers m k) = 0"
    and keys: "\<forall>e \<in> set es. cmp_key E e = k"
    and ne: "es \<noteq> []"
  shows "type (headers (cmp_captures E es m) k) = CMP_TYPE_INS \<and>
         hits (headers (cmp_captures E es m) k) = of_nat (length es) \<and>
         (length es < 2 ^ LENGTH('h) \<longrightarrow>
            shape (headers (cmp_captures E es m) k) =
              word_of_int (uint (snd (snd (snd (hd es)))) - 1))"
  using keys ne
proof (induction es rule: rev_induct)
  case Nil
  then show ?case by simp
next
  case (snoc e es)
  obtain cpu a b sz where e: "e = (cpu, a, b, sz)" by (cases e) auto
  define m1 where "m1 = cmp_captures E es m"
  define N where "N = length es"
  define h where "h = headers m1 k"
  define r where "r = (if type h \<noteq> CMP_TYPE_INS then 0 else hits h)"
  define i where "i = unat r mod 2 ^ n"
  have IH: "es \<noteq> [] \<Longrightarrow> type h = CMP_TYPE_INS"
    "es \<noteq> [] \<Longrightarrow> hits h = of_nat N"
    "es \<noteq> [] \<Longrightarrow> N < 2 ^ LENGTH('h) \<Longrightarrow>
       shape h = word_of_int (uint (snd (snd (snd (hd es)))) - 1)"
    using snoc by (simp_all add: m1_def N_def h_def)
  have key: "k = instrument_get_offset_hash E (ctx_read_reg cpu X86_REG_RIP)"
    using snoc.prems by (simp add: e)
  have r_eq: "r = of_nat N"
  proof (cases "es = []")
    case True
    then show ?thesis using fresh by (auto simp: r_def h_def m1_def N_def)
  next
    case False
    then show ?thesis using IH(1,2) by (simp add: r_def)
  qed
  define h' where "h' = (if r = 0
      then h\<lparr>type := CMP_TYPE_INS, shape := word_of_int (uint sz - 1), hits := 1\<rparr>
      else h\<lparr>hits := r + 1\<rparr>)"
  have step: "headers (cmp_captures E (es @ [e]) m) k = h'"
    using cmp_sub_step[OF cap width key h_def r_def i_def, of a b sz]
    by (simp add: cmp_captures_append e m1_def[symmetric] h'_def)
  have t: "type h' = CMP_TYPE_INS"
    using IH(1) by (auto simp: h'_def r_def split: if_splits)
  have hh: "hits h' = of_nat (Suc N)"
    by (auto simp: h'_def r_eq)
  have sh: "shape h' = word_of_int (uint (snd (snd (snd (hd (es @ [e]))))) - 1)"
    if b: "Suc N < 2 ^ LENGTH('h)"
  proof (cases "es = []")
    case True
    then show ?thesis by (simp add: h'_def r_eq N_def e)
  next
    case False
    then have "0 < N" by (simp add: N_def)
    then have "r \<noteq> 0" using b of_nat_neq_0[of N, where 'h='h] by (simp add: r_eq)
    then show ?thesis using IH(3) False b by (simp add: h'_def)
  qed
  show ?case
    using t hh sh by (simp add: step N_def)
qed

lemma cmp_captures_index:
  fixes m :: "('h::len word, 's::len word) cmp_map"
  assumes cap: "CMP_MAP_H E = 2 ^ n" and nw: "n \<le> LENGTH('h)" and width: "LENGTH('h) \<le> 32"
    and fresh: "type (headers m k) \<noteq> CMP_TYPE_INS \<or> hits (headers m k) = 0"
    and keys: "\<forall>e \<in> set es. cmp_key E e = k"
    and key: "k = instrument_get_offset_hash E (ctx_read_reg cpu X86_REG_RIP)"
  shows "log (cmp_captures E (es @ [(cpu, a, b, sz)]) m) k =
         write_cmp_operands E (log (cmp_captures E es m) k) (length es mod 2 ^ n) a b"
proof -
  define m1 where "m1 = cmp_captures E es m"
  define h where "h = headers m1 k"
  define r where "r = (if type h \<noteq> CMP_TYPE_INS then 0 else hits h)"
  define i where "i = unat r mod 2 ^ n"
  have r_eq: "r = of_nat (length es)"
  proof (cases "es = []")
    case True
    then show ?thesis using fresh by (auto simp: r_def h_def m1_def)
  next
    case False
    then show ?thesis
      using cmp_captures_header[OF cap width fresh keys False]
      by (simp add: r_def h_def m1_def)
  qed
  have i_eq: "i = length es mod 2 ^ n" by (simp add: i_def r_eq unat_of_nat_mod_cap[OF nw])
  show ?thesis
    using cmp_sub_step[OF cap width key h_def r_def i_def, of a b sz]
    by (simp add: cmp_captures_append m1_def[symmetric] i_eq)
qed

lemma cmp_captures_ring:
  fixes m :: "('h::len word, 's::len word) cmp_map"
  assumes cap: "CMP_MAP_H E = 2 ^ n" and nw: "n \<le> LENGTH('h)" and width: "LENGTH('h) \<le> 32"
    and layout: "cmp_operands_layout E"
    and fresh: "type (headers m k) \<noteq> CMP_TYPE_INS \<or> hits (headers m k) = 0"
    and keys: "\<forall>e \<in> set es. cmp_key E e = k"
  shows "\<forall>j < length es. length es \<le> j + 2 ^ n \<longrightarrow>
            cmp_operands_at E (log (cmp_captures E es m) k) (j mod 2 ^ n) = cmp_pair (es ! j)"
  using keys
proof (induction es rule: rev_induct)
  case Nil
  show ?case by simp
next
  case (snoc e es)
  obtain cpu a b sz where e: "e = (cpu, a, b, sz)" by (cases e) auto
  define ring where "ring = log (cmp_captures E es m) k"
  define N where "N = length es"
  have keys': "\<forall>e \<in> set es. cmp_key E e = k" using snoc.prems by simp
  have key: "k = instrument_get_offset_hash E (ctx_read_reg cpu X86_REG_RIP)"
    using snoc.prems by (simp add: e)
  have IH: "\<forall>j < N. N \<le> j + 2 ^ n \<longrightarrow> cmp_operands_at E ring (j mod 2 ^ n) = cmp_pair (es ! j)"
    using snoc.IH[OF keys'] by (simp add: ring_def N_def)
  have step: "log (cmp_captures E (es @ [e]) m) k = write_cmp_operands E ring (N mod 2 ^ n) a b"
    unfolding e ring_def N_def
    by (rule cmp_captures_index[OF cap nw width fresh keys' key])
  have slot: "cmp_operands_at E (write_cmp_operands E ring (N mod 2 ^ n) a b) (j mod 2 ^ n) =
              cmp_pair ((es @ [e]) ! j)"
    if "j < Suc N" "Suc N \<le> j + 2 ^ n" for j
  proof (cases "j = N")
    case True
    then show ?thesis by (simp add: cmp_operands_at_write_same[OF layout] e N_def)
  next
    case False
    then have jl: "j < N" using that by simp
    then have "j mod 2 ^ n \<noteq> N mod 2 ^ n" using that by (intro mod_distinct_window) simp_all
    then show ?thesis
      using IH jl that by (simp add: cmp_operands_at_write_other[OF layout] nth_append N_def)
  qed
  show ?case
    using slot by (simp add: step N_def)
qed

lemma ring_rotate:
  fixes ring :: "'a list" and f :: "'a \<Rightarrow> 'b" and cs :: "'b list"
  assumes len: "length ring = c" and c: "0 < c" and N: "c \<le> length cs"
    and slots: "\<forall>j < length cs. length cs \<le> j + c \<longrightarrow> f (ring ! (j mod c)) = cs ! j"
  shows "rotate (length cs mod c) (map f ring) = drop (length cs - c) cs"
proof (rule nth_equalityI)
  show "length (rotate (length cs mod c) (map f ring)) = length (drop (length cs - c) cs)"
    using len N by simp
next
  fix i assume "i < length (rotate (length cs mod c) (map f ring))"
  then have i: "i < c" using len by simp
  define j where "j = length cs - c + i"
  have j1: "j < length cs" "length cs \<le> j + c" using i N by (simp_all add: j_def)
  have "j + c = length cs + i" using N by (simp add: j_def)
  then have "(j + c) mod c = (length cs + i) mod c" by simp
  then have jm: "j mod c = (length cs mod c + i) mod c" by (simp add: mod_add_left_eq)
  have "rotate (length cs mod c) (map f ring) ! i = map f ring ! ((length cs mod c + i) mod c)"
    using i len by (simp add: nth_rotate)
  also have "\<dots> = f (ring ! (j mod c))" using c len by (simp add: jm)
  also have "\<dots> = cs ! j" using slots j1 by simp
  also have "\<dots> = drop (length cs - c) cs ! i" using N by (simp add: j_def)
  finally show "rotate (length cs mod c) (map f ring) ! i = drop (length cs - c) cs ! i" .
qed

subsection \<open>Sequences of call-site captures\<close>

lemma call_step:
  fixes m :: "('h::len word, 's::len word) cmp_map"
  assumes cap: "CMP_MAP_RTN_H E = 2 ^ n" and width: "LENGTH('h) \<le> 32"
    and k: "k = instrument_get_offset_hash E (ctx_read_reg cpu X86_REG_RIP)"
    and h: "h = headers m k"
    and r: "r = (if type h \<noteq> CMP_TYPE_RTN then 0 else hits h)"
    and i: "i = unat r mod 2 ^ n"
    and passes: "call_passes (M, cpu)"
  shows "cmplog_call_callout E M cpu m =
         m\<lparr>headers := (headers m)(k :=
              if type h \<noteq> CMP_TYPE_RTN then h\<lparr>type := CMP_TYPE_RTN, shape := 30, hits := 1\<rparr>
              else if r = 0 then h\<lparr>shape := 30, hits := 1\<rparr>
              else h\<lparr>hits := r + 1\<rparr>),
           log := (log m)(k := write_cmpfn_operands E (log m k) i (byte_at M)
              (ctx_read_reg cpu X86_REG_RDI) (ctx_read_reg cpu X86_REG_RSI))\<rparr>"
proof -
  define hits32 :: "32 word" where "hits32 = (if r = 0 then 0 else ucast r)"
  have idx: "unat (hits32 AND (CMP_MAP_RTN_H E - 1)) = i"
    by (auto simp: hits32_def i cap unat_and_cap unat_ucast_32[OF width])
  have up: "(ucast (hits32 + 1) :: 'h word) = r + 1"
    by (auto simp: hits32_def ucast_up_down[OF width])
  show ?thesis
    using idx up passes
    unfolding cmplog_call_callout_unfold
    by (auto simp: Let_def k[symmetric] h[symmetric] r hits32_def)
qed

lemma call_captures_append:
  "call_captures E (es @ fs) m = call_captures E fs (call_captures E es m)"
  by (induction es arbitrary: m) auto

lemma call_captures_header:
  fixes m :: "('h::len word, 's::len word) cmp_map"
  assumes cap: "CMP_MAP_RTN_H E = 2 ^ n" and width: "LENGTH('h) \<le> 32"
    and fresh: "type (headers m k) \<noteq> CMP_TYPE_RTN \<or> hits (headers m k) = 0"
    and keys: "\<forall>e \<in> set es. call_key E e = k \<and> call_passes e"
    and ne: "es \<noteq> []"
  shows "type (headers (call_captures E es m) k) = CMP_TYPE_RTN \<and>
         hits (headers (call_captures E es m) k) = of_nat (length es) \<and>
         shape (headers (call_captures E es m) k) = 30"
  using keys ne
proof (induction es rule: rev_induct)
  case Nil
  then show ?case by simp
next
  case (snoc e es)
  obtain M cpu where e: "e = (M, cpu)" by (cases e) auto
  define m1 where "m1 = call_captures E es m"
  define N where "N = length es"
  define h where "h = headers m1 k"
  define r where "r = (if type h \<noteq> CMP_TYPE_RTN then 0 else hits h)"
  define i where "i = unat r mod 2 ^ n"
  have IH: "es \<noteq> [] \<Longrightarrow> type h = CMP_TYPE_RTN"
    "es \<noteq> [] \<Longrightarrow> hits h = of_nat N"
    "es \<noteq> [] \<Longrightarrow> shape h = 30"
    using snoc by (simp_all add: m1_def N_def h_def)
  have key: "k = instrument_get_offset_hash E (ctx_read_reg cpu X86_REG_RIP)"
    and passes: "call_passes (M, cpu)"
    using snoc.prems by (simp_all add: e)
  have r_eq: "r = of_nat N"
  proof (cases "es = []")
    case True
    then show ?thesis using fresh by (auto simp: r_def h_def m1_def N_def)
  next
    case False
    then show ?thesis using IH(1,2) by (simp add: r_def)
  qed
  define h' where "h' = (if type h \<noteq> CMP_TYPE_RTN
      then h\<lparr>type := CMP_TYPE_RTN, shape := 30, hits := 1\<rparr>
      else if r = 0 then h\<lparr>shape := 30, hits := 1\<rparr>
      else h\<lparr>hits := r + 1\<rparr>)"
  have step: "headers (call_captures E (es @ [e]) m) k = h'"
    using call_step[OF cap width key h_def r_def i_def passes]
    by (simp add: call_captures_append e m1_def[symmetric] h'_def)
  have t: "type h' = CMP_TYPE_RTN"
    by (auto simp: h'_def)
  have "hits h' = r + 1"
    by (auto simp: h'_def r_def)
  then have hh: "hits h' = of_nat (Suc N)"
    by (simp add: r_eq)
  have sh: "shape h' = 30"
  proof (cases "es = []")
    case True
    then show ?thesis using fresh by (auto simp: h'_def r_def h_def m1_def)
  next
    case False
    then show ?thesis using IH(3) by (auto simp: h'_def)
  qed
  show ?case
    using t hh sh by (simp add: step N_def)
qed

lemma call_captures_index:
  fixes m :: "('h::len word, 's::len word) cmp_map"
  assumes cap: "CMP_MAP_RTN_H E = 2 ^ n" and nw: "n \<le> LENGTH('h)" and width: "LENGTH('h) \<le> 32"
    and fresh: "type (headers m k) \<noteq> CMP_TYPE_RTN \<or> hits (headers m k) = 0"
    and keys: "\<forall>e \<in> set es. call_key E e = k \<and> call_passes e"
    and key: "k = instrument_get_offset_hash E (ctx_read_reg cpu X86_REG_RIP)"
    and passes: "call_passes (M, cpu)"
  shows "log (call_captures E (es @ [(M, cpu)]) m) k =
         write_cmpfn_operands E (log (call_captures E es m) k) (length es mod 2 ^ n) (byte_at M)
           (ctx_read_reg cpu X86_REG_RDI) (ctx_read_reg cpu X86_REG_RSI)"
proof -
  define m1 where "m1 = call_captures E es m"
  define h where "h = headers m1 k"
  define r where "r = (if type h \<noteq> CMP_TYPE_RTN then 0 else hits h)"
  define i where "i = unat r mod 2 ^ n"
  have r_eq: "r = of_nat (length es)"
  proof (cases "es = []")
    case True
    then show ?thesis using fresh by (auto simp: r_def h_def m1_def)
  next
    case False
    then show ?thesis
      using call_captures_header[OF cap width fresh keys False]
      by (simp add: r_def h_def m1_def)
  qed
  have i_eq: "i = length es mod 2 ^ n" by (simp add: i_def r_eq unat_of_nat_mod_cap[OF nw])
  show ?thesis
    using call_step[OF cap width key h_def r_def i_def passes]
    by (simp add: call_captures_append m1_def[symmetric] i_eq)
qed

lemma call_captures_ring:
  fixes m :: "('h::len word, 's::len word) cmp_map"
  assumes cap: "CMP_MAP_RTN_H E = 2 ^ n" and nw: "n \<le> LENGTH('h)" and width: "LENGTH('h) \<le> 32"
    and layout: "cmpfn_operands_layout E"
    and fresh: "type (headers m k) \<noteq> CMP_TYPE_RTN \<or> hits (headers m k) = 0"
    and keys: "\<forall>e \<in> set es. call_key E e = k \<and> call_passes e"
  shows "\<forall>j < length es. length es \<le> j + 2 ^ n \<longrightarrow>
            cmpfn_operands_at E (log (call_captures E es m) k) (j mod 2 ^ n) =
              (fst (call_pair (es ! j)), 31, snd (call_pair (es ! j)), 31)"
  using keys
proof (induction es rule: rev_induct)
  case Nil
  show ?case by simp
next
  case (snoc e es)
  obtain M cpu where e: "e = (M, cpu)" by (cases e) auto
  define ring where "ring = log (call_captures E es m) k"
  define N where "N = length es"
  define new where "new = write_cmpfn_operands E ring (N mod 2 ^ n) (byte_at M)
           (ctx_read_reg cpu X86_REG_RDI) (ctx_read_reg cpu X86_REG_RSI)"
  have keys': "\<forall>e \<in> set es. call_key E e = k \<and> call_passes e" using snoc.prems by simp
  have key: "k = instrument_get_offset_hash E (ctx_read_reg cpu X86_REG_RIP)"
    and passes: "call_passes (M, cpu)"
    using snoc.prems by (simp_all add: e)
  have IH: "\<forall>j < N. N \<le> j + 2 ^ n \<longrightarrow>
       cmpfn_operands_at E ring (j mod 2 ^ n) =
         (fst (call_pair (es ! j)), 31, snd (call_pair (es ! j)), 31)"
    using snoc.IH[OF keys'] by (simp add: ring_def N_def)
  have step: "log (call_captures E (es @ [e]) m) k = new"
    unfolding e ring_def N_def new_def
    by (rule call_captures_index[OF cap nw width fresh keys' key passes])
  have slot: "cmpfn_operands_at E new (j mod 2 ^ n) =
              (fst (call_pair ((es @ [e]) ! j)), 31, snd (call_pair ((es @ [e]) ! j)), 31)"
    if "j < Suc N" "Suc N \<le> j + 2 ^ n" for j
  proof (cases "j = N")
    case True
    then show ?thesis
      by (simp add: new_def cmpfn_operands_at_write_same[OF layout] e N_def)
  next
    case False
    then have jl: "j < N" using that by simp
    then have "j mod 2 ^ n \<noteq> N mod 2 ^ n" using that by (intro mod_distinct_window) simp_all
    then show ?thesis
      using IH jl that
      by (simp add: new_def cmpfn_operands_at_write_other[OF layout] nth_append N_def)
  qed
  show ?case
    using slot by (simp add: step N_def)
qed

subsection \<open>The trace table and the coverage helpers\<close>

lemma Get_eq: "Get D s = (Traces D s, D)"
  by (simp add: Get_def split: option.splits)

lemma Get_calls_eq: "Get_calls D ss = (map (Traces D) ss, D)"
  by (induction ss) (simp_all add: Get_eq)

lemma smallest_fold:
  fixes r0 :: "32 word"
  defines "f \<equiv> (\<lambda>Cnt Res. if Cnt \<noteq> 0 then min Res Cnt else Res)"
  shows "(r0 = 0 \<longrightarrow> fold f cs r0 = 0) \<and>
         (r0 \<noteq> 0 \<longrightarrow> fold f cs r0 \<noteq> 0 \<and> fold f cs r0 \<le> r0 \<and>
            (fold f cs r0 = r0 \<or> fold f cs r0 \<in> set cs) \<and>
            (\<forall>c \<in> set cs. c \<noteq> 0 \<longrightarrow> fold f cs r0 \<le> c))"
proof (induction cs arbitrary: r0)
  case Nil
  show ?case by simp
next
  case (Cons c cs)
  show ?case
  proof (cases "c = 0")
    case True
    then show ?thesis using Cons[of r0] by (auto simp: f_def)
  next
    case False
    have z: "min (0 :: 32 word) c = 0" by (simp add: min_def)
    show ?thesis
    proof (cases "r0 = 0")
      case True
      then show ?thesis using Cons[of 0] False by (simp add: f_def z)
    next
      case r: False
      have m: "min r0 c \<noteq> 0" using r False by (simp add: min_def)
      have s: "fold f (c # cs) r0 = fold f cs (min r0 c)" using False by (simp add: f_def)
      have IH: "fold f cs (min r0 c) \<noteq> 0" "fold f cs (min r0 c) \<le> min r0 c"
        "fold f cs (min r0 c) = min r0 c \<or> fold f cs (min r0 c) \<in> set cs"
        "\<forall>x \<in> set cs. x \<noteq> 0 \<longrightarrow> fold f cs (min r0 c) \<le> x"
        using Cons[of "min r0 c"] m by simp_all
      show ?thesis
        using IH r unfolding s by (auto simp: min_def split: if_splits)
    qed
  qed
qed

lemma SmallestNonZeroCounter_fails:
  "SmallestNonZeroCounter cs = Inl Assert_failed \<longleftrightarrow> cs = [] \<or> hd cs = 0"
proof (cases cs)
  case Nil
  then show ?thesis by (simp add: SmallestNonZeroCounter_def)
next
  case (Cons c cs')
  then show ?thesis
    using smallest_fold[of c "c # cs'"]
    by (auto simp: SmallestNonZeroCounter_def Let_def)
qed

lemma SmallestNonZeroCounter_least:
  assumes "SmallestNonZeroCounter cs = Inr r"
  shows "r \<noteq> 0 \<and> r \<in> set cs \<and> (\<forall>c \<in> set cs. c \<noteq> 0 \<longrightarrow> r \<le> c)"
proof (cases cs)
  case Nil
  then show ?thesis using assms by (simp add: SmallestNonZeroCounter_def)
next
  case (Cons c cs')
  then show ?thesis
    using assms smallest_fold[of c "c # cs'"]
    by (auto simp: SmallestNonZeroCounter_def Let_def split: if_splits)
qed

section \<open>The claims\<close>

subsection \<open>Comparison capture\<close>




subsection \<open>Ring wraparound\<close>

text \<open>
  C2 (amended). In both callouts a capture that does not re-classify raises \<open>hits\<close> by
  one unless \<open>hits\<close> holds the top value of its field, and writes its record at ring
  index \<open>hits mod capacity\<close> (\<open>hits\<close> taken as 0 on a re-classification), the capacity
  being a power of two. Starting from an entry whose next capture is a first hit, after
  \<open>N\<close> captures at one key with \<open>N\<close> at least the capacity, the records of the ring read
  from index \<open>N mod capacity\<close> onwards, wrapping around, are the last \<open>capacity\<close> captures
  in time order; this holds for every \<open>N\<close>, provided the capacity is at most \<open>2^w\<close> for a
  \<open>w\<close>-bit \<open>hits\<close> field. The capture functions return a map for every input: no error
  is raised.
\<close>

theorem ring_wraparound:
  fixes m mx :: "('h::len word, 's::len word) cmp_map"
    and E :: externs and M :: memory and cpu :: GumCpuContext and a b :: "64 word"
    and sz :: "8 word" and n nr :: nat and k :: "64 word"
    and es :: "cmp_event list" and cs :: "call_event list"
  defines "kx \<equiv> instrument_get_offset_hash E (ctx_read_reg cpu X86_REG_RIP)"
  defines "hx \<equiv> headers mx kx"
  defines "r \<equiv> if type hx \<noteq> CMP_TYPE_INS then 0 else hits hx"
  defines "q \<equiv> if type hx \<noteq> CMP_TYPE_RTN then 0 else hits hx"
  defines "m_ins \<equiv> cmplog_handle_cmp_sub E cpu a b sz mx"
  defines "m_rtn \<equiv> cmplog_call_callout E M cpu mx"
  assumes cap: "CMP_MAP_H E = 2 ^ n" "CMP_MAP_RTN_H E = 2 ^ nr"
    and fits: "n \<le> LENGTH('h)" "nr \<le> LENGTH('h)"
    and width: "LENGTH('h) \<le> 32"
  shows "(type hx = CMP_TYPE_INS \<longrightarrow> hits (headers m_ins kx) = hits hx + 1) \<and>
         (type hx = CMP_TYPE_RTN \<and> call_passes (M, cpu) \<longrightarrow>
            hits (headers m_rtn kx) = hits hx + 1) \<and>
         (type hx = CMP_TYPE_INS \<and> hits hx \<noteq> - 1 \<longrightarrow> hits hx < hits (headers m_ins kx)) \<and>
         (type hx = CMP_TYPE_RTN \<and> hits hx \<noteq> - 1 \<and> call_passes (M, cpu) \<longrightarrow>
            hits hx < hits (headers m_rtn kx)) \<and>
         log m_ins kx = write_cmp_operands E (log mx kx) (unat r mod 2 ^ n) a b \<and>
         (cmp_operands_layout E \<longrightarrow>
            cmp_operands_at E (log m_ins kx) (unat r mod 2 ^ n) = (a, b)) \<and>
         (call_passes (M, cpu) \<longrightarrow>
            log m_rtn kx =
              write_cmpfn_operands E (log mx kx) (unat q mod 2 ^ nr) (byte_at M)
                (ctx_read_reg cpu X86_REG_RDI) (ctx_read_reg cpu X86_REG_RSI)) \<and>
         (call_passes (M, cpu) \<and> cmpfn_operands_layout E \<longrightarrow>
            cmpfn_operands_at E (log m_rtn kx) (unat q mod 2 ^ nr) =
              (fst (call_pair (M, cpu)), 31, snd (call_pair (M, cpu)), 31)) \<and>
         (cmp_operands_layout E \<and>
          (type (headers m k) \<noteq> CMP_TYPE_INS \<or> hits (headers m k) = 0) \<and>
          (\<forall>e \<in> set es. cmp_key E e = k) \<and> 2 ^ n \<le> length es \<longrightarrow>
            rotate (length es mod 2 ^ n)
              (map (cmp_operands_at E (log (cmp_captures E es m) k)) [0..<2 ^ n]) =
              map cmp_pair (drop (length es - 2 ^ n) es)) \<and>
         (cmpfn_operands_layout E \<and>
          (type (headers m k) \<noteq> CMP_TYPE_RTN \<or> hits (headers m k) = 0) \<and>
          (\<forall>e \<in> set cs. call_key E e = k \<and> call_passes e) \<and>
          2 ^ nr \<le> length cs \<longrightarrow>
            rotate (length cs mod 2 ^ nr)
              (map (cmpfn_operands_at E (log (call_captures E cs m) k)) [0..<2 ^ nr]) =
              map (\<lambda>e. (fst (call_pair e), 31, snd (call_pair e), 31))
                (drop (length cs - 2 ^ nr) cs))"
proof -
  have ins: "m_ins = mx\<lparr>headers := (headers mx)(kx :=
              if r = 0 then hx\<lparr>type := CMP_TYPE_INS, shape := word_of_int (uint sz - 1), hits := 1\<rparr>
              else hx\<lparr>hits := r + 1\<rparr>),
           log := (log mx)(kx := write_cmp_operands E (log mx kx) (unat r mod 2 ^ n) a b)\<rparr>"
    unfolding m_ins_def
    by (rule cmp_sub_step[OF cap(1) width]) (simp_all add: kx_def hx_def r_def)
  have rtn: "m_rtn = mx\<lparr>headers := (headers mx)(kx :=
              if type hx \<noteq> CMP_TYPE_RTN then hx\<lparr>type := CMP_TYPE_RTN, shape := 30, hits := 1\<rparr>
              else if q = 0 then hx\<lparr>shape := 30, hits := 1\<rparr>
              else hx\<lparr>hits := q + 1\<rparr>),
           log := (log mx)(kx := write_cmpfn_operands E (log mx kx) (unat q mod 2 ^ nr) (byte_at M)
              (ctx_read_reg cpu X86_REG_RDI) (ctx_read_reg cpu X86_REG_RSI))\<rparr>"
    if "call_passes (M, cpu)"
    unfolding m_rtn_def
    by (rule call_step[OF cap(2) width _ _ _ _ that]) (simp_all add: kx_def hx_def q_def)
  have inc_ins: "hits (headers m_ins kx) = hits hx + 1" if "type hx = CMP_TYPE_INS"
    using that by (simp add: ins r_def)
  have inc_rtn: "hits (headers m_rtn kx) = hits hx + 1"
    if "type hx = CMP_TYPE_RTN" "call_passes (M, cpu)"
    using that by (simp add: rtn q_def)
  have up_ins: "hits hx < hits (headers m_ins kx)"
    if "type hx = CMP_TYPE_INS" "hits hx \<noteq> - 1"
    using that word_inc_less[of "hits hx"] by (simp add: inc_ins)
  have up_rtn: "hits hx < hits (headers m_rtn kx)"
    if "type hx = CMP_TYPE_RTN" "hits hx \<noteq> - 1" "call_passes (M, cpu)"
    using that word_inc_less[of "hits hx"] by (simp add: inc_rtn)
  have log_ins: "log m_ins kx = write_cmp_operands E (log mx kx) (unat r mod 2 ^ n) a b"
    by (simp add: ins)
  have view_ins: "cmp_operands_at E (log m_ins kx) (unat r mod 2 ^ n) = (a, b)"
    if "cmp_operands_layout E"
    by (simp add: log_ins cmp_operands_at_write_same[OF that])
  have log_rtn: "log m_rtn kx =
      write_cmpfn_operands E (log mx kx) (unat q mod 2 ^ nr) (byte_at M)
        (ctx_read_reg cpu X86_REG_RDI) (ctx_read_reg cpu X86_REG_RSI)"
    if "call_passes (M, cpu)"
    by (simp add: rtn[OF that])
  have view_rtn: "cmpfn_operands_at E (log m_rtn kx) (unat q mod 2 ^ nr) =
      (fst (call_pair (M, cpu)), 31, snd (call_pair (M, cpu)), 31)"
    if "call_passes (M, cpu)" "cmpfn_operands_layout E"
    by (simp add: log_rtn[OF that(1)] cmpfn_operands_at_write_same[OF that(2)])
  have ring_ins: "rotate (length es mod 2 ^ n)
              (map (cmp_operands_at E (log (cmp_captures E es m) k)) [0..<2 ^ n]) =
              map cmp_pair (drop (length es - 2 ^ n) es)"
    if layout: "cmp_operands_layout E"
      and fresh: "type (headers m k) \<noteq> CMP_TYPE_INS \<or> hits (headers m k) = 0"
      and keys: "\<forall>e \<in> set es. cmp_key E e = k"
      and full: "2 ^ n \<le> length es"
  proof -
    have inv: "\<forall>j < length es. length es \<le> j + 2 ^ n \<longrightarrow>
         cmp_operands_at E (log (cmp_captures E es m) k) (j mod 2 ^ n) = cmp_pair (es ! j)"
      by (rule cmp_captures_ring[OF cap(1) fits(1) width layout fresh keys])
    have "rotate (length (map cmp_pair es) mod 2 ^ n)
            (map (cmp_operands_at E (log (cmp_captures E es m) k)) [0..<2 ^ n]) =
          drop (length (map cmp_pair es) - 2 ^ n) (map cmp_pair es)"
      using inv full by (intro ring_rotate) simp_all
    then show ?thesis by (simp add: drop_map)
  qed
  have ring_rtn: "rotate (length cs mod 2 ^ nr)
              (map (cmpfn_operands_at E (log (call_captures E cs m) k)) [0..<2 ^ nr]) =
              map (\<lambda>e. (fst (call_pair e), 31, snd (call_pair e), 31))
                (drop (length cs - 2 ^ nr) cs)"
    if layout: "cmpfn_operands_layout E"
      and fresh: "type (headers m k) \<noteq> CMP_TYPE_RTN \<or> hits (headers m k) = 0"
      and keys: "\<forall>e \<in> set cs. call_key E e = k \<and> call_passes e"
      and full: "2 ^ nr \<le> length cs"
  proof -
    have inv: "\<forall>j < length cs. length cs \<le> j + 2 ^ nr \<longrightarrow>
         cmpfn_operands_at E (log (call_captures E cs m) k) (j mod 2 ^ nr) =
           (fst (call_pair (cs ! j)), 31, snd (call_pair (cs ! j)), 31)"
      by (rule call_captures_ring[OF cap(2) fits(2) width layout fresh keys])
    have "rotate (length (map (\<lambda>e. (fst (call_pair e), 31 :: 8 word, snd (call_pair e), 31 :: 8 word)) cs) mod 2 ^ nr)
            (map (cmpfn_operands_at E (log (call_captures E cs m) k)) [0..<2 ^ nr]) =
          drop (length (map (\<lambda>e. (fst (call_pair e), 31 :: 8 word, snd (call_pair e), 31 :: 8 word)) cs) - 2 ^ nr)
            (map (\<lambda>e. (fst (call_pair e), 31, snd (call_pair e), 31)) cs)"
      using inv full by (intro ring_rotate) simp_all
    then show ?thesis by (simp add: drop_map)
  qed
  show ?thesis
    using inc_ins inc_rtn up_ins up_rtn log_ins view_ins log_rtn view_rtn ring_ins ring_rtn
    by blast
qed

theorem ring_wraparound_witness:
  "CMP_MAP_H ex_small_externs = 2 ^ 1 \<and> CMP_MAP_RTN_H ex_small_externs = 2 ^ 1 \<and>
   (1::nat) \<le> LENGTH(24) \<and> LENGTH(24) \<le> (32::nat) \<and>
   cmp_operands_layout ex_small_externs \<and> cmpfn_operands_layout ex_small_externs \<and>
   type (headers ex_hit_once 4096) = CMP_TYPE_INS \<and> hits (headers ex_hit_once 4096) \<noteq> - 1 \<and>
   hits (headers ex_hit_once 4096) <
     hits (headers (cmplog_handle_cmp_sub ex_small_externs ex_context 1 2 4 ex_hit_once) 4096) \<and>
   call_passes (ex_readable, ex_context) \<and>
   hits (headers (ex_hit_once\<lparr>headers := (\<lambda>k. \<lparr>hits = 1, shape = 30, type = CMP_TYPE_RTN\<rparr>)\<rparr>) 4096) <
     hits (headers (cmplog_call_callout ex_small_externs ex_readable ex_context
       (ex_hit_once\<lparr>headers := (\<lambda>k. \<lparr>hits = 1, shape = 30, type = CMP_TYPE_RTN\<rparr>)\<rparr>)) 4096) \<and>
   2 ^ 1 \<le> length ex_cmp_events \<and>
   cmp_key ex_small_externs (ex_context, 10, 11, 4) = 4096 \<and>
   rotate (length ex_cmp_events mod 2 ^ 1)
     (map (cmp_operands_at ex_small_externs
            (log (cmp_captures ex_small_externs ex_cmp_events ex_map) 4096)) [0..<2 ^ 1]) =
     [(20, 21), (30, 31)] \<and>
   2 ^ 1 \<le> length ex_call_events \<and>
   rotate (length ex_call_events mod 2 ^ 1)
     (map (cmpfn_operands_at ex_small_externs
            (log (call_captures ex_small_externs ex_call_events ex_map) 4096)) [0..<2 ^ 1]) =
     map (\<lambda>e. (fst (call_pair e), 31, snd (call_pair e), 31))
       (drop (length ex_call_events - 2 ^ 1) ex_call_events)"
  using ring_wraparound [where m = ex_map and mx = ex_hit_once and E = ex_small_externs
      and M = ex_readable and cpu = ex_context and a = 1 and b = 2 and sz = 4 and n = 1 and nr = 1
      and k = 4096 and es = ex_cmp_events and cs = ex_call_events]
    ring_wraparound [where m = ex_map
      and mx = "ex_hit_once\<lparr>headers := (\<lambda>k. \<lparr>hits = 1, shape = 30, type = CMP_TYPE_RTN\<rparr>)\<rparr>"
      and E = ex_small_externs
      and M = ex_readable and cpu = ex_context and a = 1 and b = 2 and sz = 4 and n = 1 and nr = 1
      and k = 4096 and es = ex_cmp_events and cs = ex_call_events]
  by (simp add: ex_small_externs_def ex_externs_def ex_header_def ex_hit_once_def ex_map_def
      ex_cmp_events_def ex_call_events_def ex_context_def ex_readable_def ctx_read_reg_def
      G_MAXULONG_def cmp_operands_layout_def cmpfn_operands_layout_def apart_def)

text \<open>
  C2 as stated fails: \<open>hits\<close> does not only increase. A capture at an entry whose 24-bit
  \<open>hits\<close> is \<open>2^24 - 1\<close> leaves it at 0, in the comparison callout and in the call-site
  callout, with no re-classification and no reset from outside.
\<close>

theorem hits_wraps_to_zero:
  "type (headers ex_top_ins 4096) = CMP_TYPE_INS \<and> hits (headers ex_top_ins 4096) = - 1 \<and>
   hits (headers (cmplog_handle_cmp_sub ex_externs ex_context 1 2 4 ex_top_ins) 4096) = 0 \<and>
   \<not> hits (headers ex_top_ins 4096) <
      hits (headers (cmplog_handle_cmp_sub ex_externs ex_context 1 2 4 ex_top_ins) 4096) \<and>
   type (headers ex_top_rtn 4096) = CMP_TYPE_RTN \<and> hits (headers ex_top_rtn 4096) = - 1 \<and>
   call_passes (ex_readable, ex_context) \<and>
   hits (headers (cmplog_call_callout ex_externs ex_readable ex_context ex_top_rtn) 4096) = 0 \<and>
   \<not> hits (headers ex_top_rtn 4096) <
      hits (headers (cmplog_call_callout ex_externs ex_readable ex_context ex_top_rtn) 4096)"
  by (simp add: cmplog_handle_cmp_sub_def cmplog_call_callout_def cmplog_call_callout_traced_def Let_def ex_top_ins_def
      ex_top_rtn_def ex_map_def ex_externs_def ex_context_def ex_readable_def ctx_read_reg_def
      G_MAXULONG_def ucast_up_down)

subsection \<open>Call-site capture\<close>

text \<open>
  C3. A call-site callout whose two pointer registers each leave 31 bytes below the top
  of the address space and pass the probe for 31 bytes writes the entry at the key of
  \<open>rip\<close>: the entry's type is RTN afterwards; on a first hit (the stored type is not
  RTN, or \<open>hits\<close> is 0) \<open>shape\<close> becomes 30 and \<open>hits\<close> becomes 1; on a later hit type and
  \<open>shape\<close> stay and \<open>hits\<close> grows by one; the record at ring index
  \<open>hits mod CMP_MAP_RTN_H\<close> of \<open>log[k]\<close>, seen as \<open>struct cmpfn_operands[]\<close>, gets both
  lengths 31 and the 31 bytes at each pointer; every other record of that view, every
  byte of \<open>log[k]\<close> outside the written record and every other key are unchanged.
\<close>

theorem call_site_capture:
  fixes m :: "('h::len word, 's::len word) cmp_map"
    and E :: externs and M :: memory and cpu :: GumCpuContext and n :: nat
  defines "rdi \<equiv> ctx_read_reg cpu X86_REG_RDI"
  defines "rsi \<equiv> ctx_read_reg cpu X86_REG_RSI"
  defines "k \<equiv> instrument_get_offset_hash E (ctx_read_reg cpu X86_REG_RIP)"
  defines "h \<equiv> headers m k"
  defines "m' \<equiv> cmplog_call_callout E M cpu m"
  defines "first \<equiv> type h \<noteq> CMP_TYPE_RTN \<or> hits h = 0"
  defines "i \<equiv> if first then 0 else unat (hits h) mod 2 ^ n"
  assumes top: "unat rdi + 31 < 2 ^ 64" "unat rsi + 31 < 2 ^ 64"
    and readable: "cmplog_is_readable M rdi 31" "cmplog_is_readable M rsi 31"
    and cap: "CMP_MAP_RTN_H E = 2 ^ n"
    and layout: "cmpfn_operands_layout E"
    and width: "LENGTH('h) \<le> 32"
  shows "type (headers m' k) = CMP_TYPE_RTN \<and>
         (first \<longrightarrow> shape (headers m' k) = 30 \<and> hits (headers m' k) = 1) \<and>
         (\<not> first \<longrightarrow> shape (headers m' k) = shape h \<and> hits (headers m' k) = hits h + 1) \<and>
         i < 2 ^ n \<and>
         cmpfn_operands_at E (log m' k) i =
           (map (\<lambda>j. byte_at M (rdi + of_nat j)) [0..<31], 31,
            map (\<lambda>j. byte_at M (rsi + of_nat j)) [0..<31], 31) \<and>
         (\<forall>j. j \<noteq> i \<longrightarrow> cmpfn_operands_at E (log m' k) j = cmpfn_operands_at E (log m k) j) \<and>
         (\<forall>x. x < i * sizeof_cmpfn_operands E \<or> Suc i * sizeof_cmpfn_operands E \<le> x \<longrightarrow>
            log m' k x = log m k x) \<and>
         (\<forall>k'. k' \<noteq> k \<longrightarrow> headers m' k' = headers m k' \<and> log m' k' = log m k')"
proof -
  have passes: "call_passes (M, cpu)"
    using top readable by (simp add: top_guard rdi_def rsi_def)
  define r where "r = (if type h \<noteq> CMP_TYPE_RTN then 0 else hits h)"
  have i_eq: "i = unat r mod 2 ^ n"
    by (auto simp: i_def r_def first_def)
  define h3 where "h3 = (if type h \<noteq> CMP_TYPE_RTN
                         then h\<lparr>type := CMP_TYPE_RTN, shape := 30, hits := 1\<rparr>
                         else if r = 0 then h\<lparr>shape := 30, hits := 1\<rparr>
                         else h\<lparr>hits := r + 1\<rparr>)"
  have step: "m' = m\<lparr>headers := (headers m)(k := h3),
      log := (log m)(k := write_cmpfn_operands E (log m k) i (byte_at M) rdi rsi)\<rparr>"
    unfolding m'_def h3_def rdi_def rsi_def
    by (rule call_step[OF cap width _ _ _ _ passes]) (simp_all add: k_def h_def r_def i_eq)
  have hdr: "type h3 = CMP_TYPE_RTN"
    "first \<Longrightarrow> shape h3 = 30 \<and> hits h3 = 1"
    "\<not> first \<Longrightarrow> shape h3 = shape h \<and> hits h3 = hits h + 1"
    by (auto simp: h3_def first_def r_def)
  have i_lt: "i < 2 ^ n" by (simp add: i_def)
  show ?thesis
    using hdr i_lt cmpfn_operands_at_write_same[OF layout]
      cmpfn_operands_at_write_other[OF layout] write_cmpfn_operands_frame[OF layout]
    by (simp add: step read_bytes_map)
qed

theorem call_site_capture_witness:
  "unat (ctx_read_reg ex_context X86_REG_RDI) + 31 < 2 ^ 64 \<and>
   unat (ctx_read_reg ex_context X86_REG_RSI) + 31 < 2 ^ 64 \<and>
   cmplog_is_readable ex_readable (ctx_read_reg ex_context X86_REG_RDI) 31 \<and>
   cmplog_is_readable ex_readable (ctx_read_reg ex_context X86_REG_RSI) 31 \<and>
   CMP_MAP_RTN_H ex_externs = 2 ^ 3 \<and> cmpfn_operands_layout ex_externs \<and>
   instrument_get_offset_hash ex_externs (ctx_read_reg ex_context X86_REG_RIP) = 4096 \<and>
   type (headers (cmplog_call_callout ex_externs ex_readable ex_context ex_map) 4096) =
     CMP_TYPE_RTN \<and>
   shape (headers (cmplog_call_callout ex_externs ex_readable ex_context ex_map) 4096) = 30 \<and>
   hits (headers (cmplog_call_callout ex_externs ex_readable ex_context ex_map) 4096) = 1 \<and>
   fst (snd (cmpfn_operands_at ex_externs
     (log (cmplog_call_callout ex_externs ex_readable ex_context ex_map) 4096) 0)) = 31 \<and>
   hits (headers (cmplog_call_callout ex_externs ex_readable ex_context
     (ex_map\<lparr>headers := (\<lambda>k. \<lparr>hits = 9, shape = 30, type = CMP_TYPE_RTN\<rparr>)\<rparr>)) 4096) = 10 \<and>
   fst (snd (cmpfn_operands_at ex_externs
     (log (cmplog_call_callout ex_externs ex_readable ex_context
       (ex_map\<lparr>headers := (\<lambda>k. \<lparr>hits = 9, shape = 30, type = CMP_TYPE_RTN\<rparr>)\<rparr>)) 4096) 1)) = 31"
  using call_site_capture [where m = ex_map and E = ex_externs and M = ex_readable
      and cpu = ex_context and n = 3]
    call_site_capture [where
      m = "ex_map\<lparr>headers := (\<lambda>k. \<lparr>hits = 9, shape = 30, type = CMP_TYPE_RTN\<rparr>)\<rparr>"
      and E = ex_externs and M = ex_readable and cpu = ex_context and n = 3]
  by (simp add: ex_map_def ex_header_def ex_externs_def ex_readable_def ex_context_def
      ctx_read_reg_def cmpfn_operands_layout_def apart_def)

subsection \<open>Operand evaluation\<close>

text \<open>
  C4 (amended). A register operand evaluates to the register's value and an immediate
  to its constant, always. For a memory operand the address is the value of the base
  register (0 when there is none) plus the value of the index register (0 when there is
  none) times the scale, plus the displacement, modulo \<open>2^64\<close>; when the probe refuses
  the range the result is FALSE; when it accepts it and the width is 1, 2, 4 or 8 the
  result is the little-endian value of the bytes at the address; when it accepts it and
  the width is any other, the evaluator ends the process with a fatal error.
\<close>

theorem operand_value:
  "(ctx_type ctx = X86_OP_REG \<longrightarrow>
      cmplog_get_operand_value M cpu ctx = Inr (Some (ctx_read_reg cpu (ctx_reg ctx)))) \<and>
   (ctx_type ctx = X86_OP_IMM \<longrightarrow>
      cmplog_get_operand_value M cpu ctx = Inr (Some (ctx_imm ctx))) \<and>
   (ctx_type ctx = X86_OP_MEM \<longrightarrow>
      cmplog_get_operand_value M cpu ctx =
        (let mem = ctx_mem ctx;
             address =
               (if base mem = X86_REG_INVALID then 0 else ctx_read_reg cpu (base mem)) +
               (if index mem = X86_REG_INVALID then 0 else ctx_read_reg cpu (index mem)) *
                 scast (scale mem) +
               disp mem
         in if \<not> cmplog_is_readable M address (unat (ctx_size ctx)) then Inr None
            else if ctx_size ctx \<in> {1, 2, 4, 8}
                 then Inr (Some (load_le (byte_at M) address (unat (ctx_size ctx))))
            else Inl (Invalid_operand_size (ctx_size ctx))))"
  by (auto simp: cmplog_get_operand_value_def cmplog_read_mem_def mem_address_def Let_def)

theorem operand_value_witness:
  "cmplog_get_operand_value ex_readable ex_context ex_reg_operand = Inr (Some 8192) \<and>
   cmplog_get_operand_value ex_readable ex_context
     (ex_reg_operand\<lparr>ctx_type := X86_OP_IMM, ctx_imm := 42\<rparr>) = Inr (Some 42) \<and>
   cmplog_get_operand_value ex_readable ex_context (ex_mem_operand 2) = Inr (Some 2312) \<and>
   cmplog_get_operand_value ex_unreadable ex_context (ex_mem_operand 2) = Inr None \<and>
   cmplog_get_operand_value ex_readable ex_context (ex_mem_operand 3) =
     Inl (Invalid_operand_size 3)"
  using operand_value [where ctx = ex_reg_operand and M = ex_readable and cpu = ex_context]
    operand_value [where ctx = "ex_reg_operand\<lparr>ctx_type := X86_OP_IMM, ctx_imm := 42\<rparr>"
      and M = ex_readable and cpu = ex_context]
    operand_value [where ctx = "ex_mem_operand 2" and M = ex_readable and cpu = ex_context]
    operand_value [where ctx = "ex_mem_operand 2" and M = ex_unreadable and cpu = ex_context]
    operand_value [where ctx = "ex_mem_operand 3" and M = ex_readable and cpu = ex_context]
  by (simp add: ex_reg_operand_def ex_mem_operand_def ex_mem_def ex_context_def
      ex_readable_def ex_unreadable_def ctx_read_reg_def load_le_2)

text \<open>
  C4 as stated fails: a readable memory operand three bytes wide does not evaluate, it
  is a fatal error.
\<close>

theorem odd_width_is_fatal:
  "ctx_type (ex_mem_operand 3) = X86_OP_MEM \<and>
   cmplog_is_readable ex_readable (mem_address ex_context (ctx_mem (ex_mem_operand 3)))
     (unat (ctx_size (ex_mem_operand 3))) \<and>
   cmplog_get_operand_value ex_readable ex_context (ex_mem_operand 3) =
     Inl (Invalid_operand_size 3)"
  by (simp add: cmplog_get_operand_value_def cmplog_read_mem_def ex_mem_operand_def
      ex_readable_def)

subsection \<open>Failed evaluation and unreadable pointers\<close>

text \<open>
  C5. A comparison callout whose first operand does not evaluate, or whose first
  operand evaluates and whose second does not, returns the map it was given and raises
  no fatal error; so does a call-site callout when the probe refuses 31 bytes at either
  pointer register.
\<close>

theorem failed_capture_keeps_map:
  "(cmplog_get_operand_value M cpu (operand1 ctx) = Inr None \<longrightarrow>
      cmplog_cmp_sub_callout E M cpu ctx m = Inr m) \<and>
   (cmplog_get_operand_value M cpu (operand1 ctx) = Inr (Some v) \<and>
    cmplog_get_operand_value M cpu (operand2 ctx) = Inr None \<longrightarrow>
      cmplog_cmp_sub_callout E M cpu ctx m = Inr m) \<and>
   (\<not> cmplog_is_readable M (ctx_read_reg cpu X86_REG_RDI) 31 \<or>
    \<not> cmplog_is_readable M (ctx_read_reg cpu X86_REG_RSI) 31 \<longrightarrow>
      cmplog_call_callout E M cpu m = m)"
  by (auto simp: cmplog_cmp_sub_callout_def cmplog_call_callout_unfold Let_def)

theorem failed_capture_keeps_map_witness:
  "cmplog_get_operand_value ex_unreadable ex_context (ex_mem_operand 4) = Inr None \<and>
   cmplog_cmp_sub_callout ex_externs ex_unreadable ex_context
     \<lparr>operand1 = ex_mem_operand 4, operand2 = ex_reg_operand\<rparr> ex_map = Inr ex_map \<and>
   cmplog_get_operand_value ex_unreadable ex_context ex_reg_operand = Inr (Some 8192) \<and>
   cmplog_cmp_sub_callout ex_externs ex_unreadable ex_context
     \<lparr>operand1 = ex_reg_operand, operand2 = ex_mem_operand 4\<rparr> ex_map = Inr ex_map \<and>
   \<not> cmplog_is_readable ex_unreadable (ctx_read_reg ex_context X86_REG_RDI) 31 \<and>
   cmplog_call_callout ex_externs ex_unreadable ex_context ex_map = ex_map"
  using failed_capture_keeps_map [where M = ex_unreadable and cpu = ex_context
      and ctx = "\<lparr>operand1 = ex_mem_operand 4, operand2 = ex_reg_operand\<rparr>"
      and E = ex_externs and m = ex_map]
    failed_capture_keeps_map [where M = ex_unreadable and cpu = ex_context
      and ctx = "\<lparr>operand1 = ex_reg_operand, operand2 = ex_mem_operand 4\<rparr>"
      and v = 8192 and E = ex_externs and m = ex_map]
  by (simp add: cmplog_get_operand_value_def cmplog_read_mem_def ex_unreadable_def
      ex_mem_operand_def ex_reg_operand_def ex_context_def ctx_read_reg_def)

subsection \<open>Single-byte comparisons\<close>

text \<open>
  C6. An instruction of the comparison/subtraction family whose first operand is one
  byte wide gets no callout, and executing it leaves the map pointer and the map as
  they are, for every memory, CPU cpu and allocation.
\<close>

theorem single_byte_cmp_excluded:
  assumes "cmp_sub_family (insn_id instr)" and "op_size (operands instr 0) = 1"
  shows "cmplog_instrument afl alloc instr = Inr [] \<and>
         observe E afl (M, cpu, alloc, instr) = Inr afl"
proof -
  have a: "cmplog_instrument_cmp_sub alloc instr = Inr []"
    using assms by (simp add: cmplog_instrument_cmp_sub_def Let_def)
  have b: "cmplog_instrument_call instr = []"
    using assms(1) cmp_sub_family_not_call by (simp add: cmplog_instrument_call_def)
  have c: "cmplog_instrument afl alloc instr = Inr []"
    by (simp add: cmplog_instrument_def a b split: option.splits)
  show ?thesis by (simp add: c split: option.splits)
qed

theorem single_byte_cmp_excluded_witness:
  "cmp_sub_family (insn_id ex_byte_cmp) \<and> op_size (operands ex_byte_cmp 0) = 1 \<and>
   cmplog_instrument (Some ex_map) (Some \<lparr>operand1 = ex_reg_operand, operand2 = ex_reg_operand\<rparr>)
     ex_byte_cmp = Inr [] \<and>
   observe ex_externs (Some ex_map)
     (ex_readable, ex_context, Some \<lparr>operand1 = ex_reg_operand, operand2 = ex_reg_operand\<rparr>,
      ex_byte_cmp) = Inr (Some ex_map)"
  using single_byte_cmp_excluded [where instr = ex_byte_cmp and afl = "Some ex_map"
      and alloc = "Some \<lparr>operand1 = ex_reg_operand, operand2 = ex_reg_operand\<rparr>"
      and E = ex_externs and M = ex_readable and cpu = ex_context]
  by (simp add: ex_byte_cmp_def)

subsection \<open>Trace lookup\<close>

text \<open>
  C8. \<open>Get\<close> returns the stored vector exactly for the fingerprints in the table and
  \<open>nullptr\<close> for every other one, and it leaves the object as it was; so does any
  sequence of \<open>Get\<close> calls, whose results are the table's entries.
\<close>

theorem Get_is_lookup:
  "(fst (Get D s) = Some v) = (Traces D s = Some v) \<and>
   (fst (Get D s) = None) = (s \<notin> dom (Traces D)) \<and>
   snd (Get D s) = D \<and>
   snd (Get_calls D ss) = D \<and>
   fst (Get_calls D ss) = map (Traces D) ss"
  by (auto simp: Get_eq Get_calls_eq)

theorem Get_is_lookup_witness:
  "fst (Get ex_trace ''aaa1'') = Some [1, 0, 1] \<and>
   fst (Get ex_trace ''unknown'') = None \<and>
   snd (Get_calls ex_trace [''aaa1'', ''unknown'', ''aaa1'']) = ex_trace"
  using Get_is_lookup [where D = ex_trace and s = "''aaa1''" and v = "[1, 0, 1]"
      and ss = "[''aaa1'', ''unknown'', ''aaa1'']"]
    Get_is_lookup [where D = ex_trace and s = "''unknown''" and v = "[]" and ss = "[]"]
  by (simp add: ex_trace_def)

subsection \<open>Pointers at the top of the address space\<close>

text \<open>
  C9. When adding 31 to the value of \<open>rdi\<close> or of \<open>rsi\<close> leaves the 64-bit address
  space, the call-site callout returns with the map it was given, having made no call
  of the probe and no copy from the target's memory.
\<close>

theorem top_of_address_space_skipped:
  assumes "2 ^ 64 \<le> unat (ctx_read_reg cpu X86_REG_RDI) + 31 \<or>
           2 ^ 64 \<le> unat (ctx_read_reg cpu X86_REG_RSI) + 31"
  shows "cmplog_call_callout_traced E M cpu m = ([], m) \<and> cmplog_call_callout E M cpu m = m"
  using assms
  by (simp add: cmplog_call_callout_def cmplog_call_callout_traced_def top_guard Let_def)

theorem top_of_address_space_skipped_witness:
  "2 ^ 64 \<le> unat (ctx_read_reg (ex_context (X86_REG_RSI := - 31)) X86_REG_RSI) + 31 \<and>
   cmplog_call_callout_traced ex_externs ex_readable (ex_context (X86_REG_RSI := - 31)) ex_map =
     ([], ex_map) \<and>
   fst (cmplog_call_callout_traced ex_externs ex_readable ex_context ex_map) =
     [Probe 4096 31, Probe 8192 31, Copy 4096 31, Copy 8192 31] \<and>
   fst (cmplog_call_callout_traced ex_externs ex_unreadable ex_context ex_map) = [Probe 4096 31]"
  using top_of_address_space_skipped [where cpu = "ex_context (X86_REG_RSI := - 31)"
      and E = ex_externs and M = ex_readable and m = ex_map]
  by (simp add: ctx_read_reg_def cmplog_call_callout_traced_def Let_def G_MAXULONG_def
      ex_context_def ex_readable_def ex_unreadable_def)

subsection \<open>No map, no capture\<close>

text \<open>
  C10. When the map pointer is NULL, \<open>cmplog_instrument\<close> returns at once and puts no
  callout, whatever the instruction; a whole session that starts with a NULL pointer
  ends with it, without a fatal error.
\<close>

theorem null_map_no_callout:
  "cmplog_instrument None alloc instr = Inr [] \<and> session E None xs = Inr None"
  by (simp add: cmplog_instrument_def session_null)

end
